theory Spec2Isabelle
  imports Complex_Main "HOL-Library.Word"
begin

section \<open>Data model (types.ts)\<close>

text \<open>
  A JavaScript string is a sequence of UTF-16 code units.  A code unit is modelled as a
  natural number, a string as the list of its code units; \<open>js\<close> turns an ASCII literal
  into that representation.
\<close>

type_synonym jsstring = "nat list"

definition js :: "string \<Rightarrow> jsstring" where
  "js s = map of_char s"

datatype sender = User | Bot

datatype video_state = Generating | Done | Failed

text \<open>The icon of a suggestion is a React component; only its identity matters here.\<close>

datatype icon = SunCloudIcon | BeachIcon | HotelIcon | FoodIcon | TempleIcon | TripPlanIcon | PaletteIcon

record uploaded_file =
  f_name :: jsstring
  f_mimeType :: jsstring
  f_data :: jsstring
  f_previewUrl :: "jsstring option"

record suggestion =
  sg_text :: jsstring
  sg_icon :: icon
  sg_prompt :: "jsstring option"

text \<open>
  A source citation.  The interface declares both fields as strings; the grounding data the
  citations are built from leaves the title optional, so the title may be absent at run
  time.
\<close>

record source_ref =
  src_uri :: jsstring
  src_title :: "jsstring option"

text \<open>
  \<open>ChatMessage\<close>: every optional field of the interface is an \<open>option\<close>; \<open>None\<close> is the
  absent (undefined) field.
\<close>

record chat_message =
  m_id :: int
  m_text :: jsstring
  m_sender :: sender
  m_suggestions :: "suggestion list option"
  m_images :: "jsstring list option"
  m_sources :: "source_ref list option"
  m_isLoading :: "bool option"
  m_files :: "uploaded_file list option"
  m_isWelcome :: "bool option"
  m_isSystem :: "bool option"
  m_videoState :: "video_state option"
  m_videoUrl :: "jsstring option"

record chat_session =
  s_id :: jsstring
  s_title :: jsstring
  s_messages :: "chat_message list"
  s_languageCode :: jsstring

text \<open>A message literal that sets only id, text and sender; every other field is absent.\<close>

definition mk_message :: "int \<Rightarrow> jsstring \<Rightarrow> sender \<Rightarrow> chat_message" where
  "mk_message i t s =
     \<lparr> m_id = i, m_text = t, m_sender = s, m_suggestions = None, m_images = None,
       m_sources = None, m_isLoading = None, m_files = None, m_isWelcome = None,
       m_isSystem = None, m_videoState = None, m_videoUrl = None \<rparr>"

text \<open>The truth value of an optional boolean field: an absent field is falsy.\<close>

definition truthy :: "bool option \<Rightarrow> bool" where
  "truthy b = (case b of None \<Rightarrow> False | Some v \<Rightarrow> v)"

section \<open>Session store: updateSessionMessages\<close>

text \<open>
  The second argument of \<open>updateSessionMessages\<close> is either a new message list or a
  function from the previous list to the new one.
\<close>

datatype messages_update =
    NewList "chat_message list"
  | Updater "chat_message list \<Rightarrow> chat_message list"

definition applyUpdate :: "messages_update \<Rightarrow> chat_message list \<Rightarrow> chat_message list" where
  "applyUpdate newMessages prevMessages =
     (case newMessages of NewList ms \<Rightarrow> ms | Updater f \<Rightarrow> f prevMessages)"

definition updateSessionMessages ::
  "jsstring \<Rightarrow> messages_update \<Rightarrow> chat_session list \<Rightarrow> chat_session list" where
  "updateSessionMessages sessionId newMessages prevSessions =
     map (\<lambda>session.
            if s_id session = sessionId
            then session\<lparr> s_messages := applyUpdate newMessages (s_messages session) \<rparr>
            else session)
         prevSessions"

section \<open>Errors\<close>

text \<open>
  Exceptions raised by the platform, whose message the code never reads.
\<close>

datatype platform_exception = TypeError | InvalidCharacterError | RangeError | NotSupportedError

text \<open>
  A value raised by a backend call or by the code itself and caught by a handler that reads
  its message: an \<open>Error\<close> object with its message, or a thrown value that is not an
  \<open>Error\<close>.
\<close>

datatype js_error = Error jsstring | Thrown

section \<open>Live audio: the base64 helpers encode and decode\<close>

text \<open>
  \<open>encode\<close> and \<open>decode\<close> call the browser's \<open>btoa\<close> and \<open>atob\<close>.  These are modelled after
  their definition in the HTML standard: \<open>btoa\<close> is base64 encoding (RFC 4648, with
  padding) of a string whose code units are all below 256 and raises on any other string;
  \<open>atob\<close> is forgiving-base64 decoding: ASCII whitespace is dropped, one or two padding
  characters are removed when the length is a multiple of four, a remaining length of
  4n+1 or any character outside the alphabet raises, and the remaining sextets are
  decoded in groups of four, a last group of two or three dropping its unused bits.
\<close>

definition b64char :: "nat \<Rightarrow> nat" where
  "b64char n =
     (if n < 26 then 65 + n
      else if n < 52 then 97 + (n - 26)
      else if n < 62 then 48 + (n - 52)
      else if n = 62 then 43 else 47)"

definition b64index :: "nat \<Rightarrow> nat option" where
  "b64index u =
     (if 65 \<le> u \<and> u \<le> 90 then Some (u - 65)
      else if 97 \<le> u \<and> u \<le> 122 then Some (u - 97 + 26)
      else if 48 \<le> u \<and> u \<le> 57 then Some (u - 48 + 52)
      else if u = 43 then Some 62
      else if u = 47 then Some 63
      else None)"

fun b64encode :: "nat list \<Rightarrow> jsstring" where
  "b64encode (a # b # c # rest) =
     [b64char (a div 4), b64char ((a mod 4) * 16 + b div 16),
      b64char ((b mod 16) * 4 + c div 64), b64char (c mod 64)] @ b64encode rest"
| "b64encode [a, b] =
     [b64char (a div 4), b64char ((a mod 4) * 16 + b div 16), b64char ((b mod 16) * 4), 61]"
| "b64encode [a] = [b64char (a div 4), b64char ((a mod 4) * 16), 61, 61]"
| "b64encode [] = []"

definition btoa :: "jsstring \<Rightarrow> platform_exception + jsstring" where
  "btoa s = (if list_ex (\<lambda>u. 255 < u) s then Inl InvalidCharacterError else Inr (b64encode s))"

definition asciiWhitespace :: "nat \<Rightarrow> bool" where
  "asciiWhitespace u = (u = 9 \<or> u = 10 \<or> u = 12 \<or> u = 13 \<or> u = 32)"

definition stripPadding :: "jsstring \<Rightarrow> jsstring" where
  "stripPadding d =
     (if length d mod 4 = 0 then
        (if 2 \<le> length d \<and> d ! (length d - 1) = 61 \<and> d ! (length d - 2) = 61
         then butlast (butlast d)
         else if 1 \<le> length d \<and> d ! (length d - 1) = 61 then butlast d
         else d)
      else d)"

fun b64decode :: "nat list \<Rightarrow> nat list" where
  "b64decode (p # q # r # s # rest) =
     [p * 4 + q div 16, (q mod 16) * 16 + r div 4, (r mod 4) * 64 + s] @ b64decode rest"
| "b64decode [p, q, r] = [p * 4 + q div 16, (q mod 16) * 16 + r div 4]"
| "b64decode [p, q] = [p * 4 + q div 16]"
| "b64decode [p] = []"
| "b64decode [] = []"

definition atob :: "jsstring \<Rightarrow> platform_exception + jsstring" where
  "atob s =
     (let d = stripPadding (filter (\<lambda>u. \<not> asciiWhitespace u) s) in
      if length d mod 4 = 1 then Inl InvalidCharacterError
      else if list_ex (\<lambda>u. b64index u = None) d then Inl InvalidCharacterError
      else Inr (b64decode (map (\<lambda>u. the (b64index u)) d)))"

text \<open>
  A \<open>Uint8Array\<close> is a list of bytes.  \<open>encode\<close> builds the binary string with
  \<open>String.fromCharCode\<close> of every byte and hands it to \<open>btoa\<close>; \<open>decode\<close> stores the code units
  of \<open>atob\<close>'s result into a \<open>Uint8Array\<close> (a store into a byte array keeps the low eight
  bits).
\<close>

type_synonym uint8array = "8 word list"

definition encode :: "uint8array \<Rightarrow> platform_exception + jsstring" where
  "encode bytes = btoa (map unat bytes)"

definition decode :: "jsstring \<Rightarrow> platform_exception + uint8array" where
  "decode base64 =
     (case atob base64 of
        Inl e \<Rightarrow> Inl e
      | Inr binaryString \<Rightarrow> Inr (map of_nat binaryString))"

text \<open>Auxiliary functions for the codec proof: the sextets and the padding of an encoding.\<close>

fun sextets :: "nat list \<Rightarrow> nat list" where
  "sextets (a # b # c # rest) =
     [a div 4, (a mod 4) * 16 + b div 16, (b mod 16) * 4 + c div 64, c mod 64] @ sextets rest"
| "sextets [a, b] = [a div 4, (a mod 4) * 16 + b div 16, (b mod 16) * 4]"
| "sextets [a] = [a div 4, (a mod 4) * 16]"
| "sextets [] = []"

fun padding :: "nat list \<Rightarrow> nat list" where
  "padding (a # b # c # rest) = padding rest"
| "padding [a, b] = [61]"
| "padding [a] = [61, 61]"
| "padding [] = []"

section \<open>Live audio: decodeAudioData\<close>

text \<open>
  \<open>new Int16Array(data.buffer)\<close> views the bytes as little-endian 16-bit integers and raises
  a \<open>RangeError\<close> when their number is odd.  \<open>createBuffer\<close> raises \<open>NotSupportedError\<close> for
  a buffer of no channel, no frame or a zero sample rate.  The duration of an
  \<open>AudioBuffer\<close> is its length in frames over its sample rate.
\<close>

record audio_buffer =
  ab_sampleRate :: nat
  ab_length :: nat
  ab_channelData :: "real list list"

definition duration :: "audio_buffer \<Rightarrow> real" where
  "duration buffer = real (ab_length buffer) / real (ab_sampleRate buffer)"

fun int16Pairs :: "uint8array \<Rightarrow> 16 word list" where
  "int16Pairs (lo # hi # rest) = word_cat hi lo # int16Pairs rest"
| "int16Pairs [lo] = []"
| "int16Pairs [] = []"

definition newInt16Array :: "uint8array \<Rightarrow> platform_exception + 16 word list" where
  "newInt16Array buf = (if odd (length buf) then Inl RangeError else Inr (int16Pairs buf))"

definition decodeAudioData ::
  "uint8array \<Rightarrow> nat \<Rightarrow> nat \<Rightarrow> platform_exception + audio_buffer" where
  "decodeAudioData data sampleRate numChannels =
     (case newInt16Array data of
        Inl e \<Rightarrow> Inl e
      | Inr dataInt16 \<Rightarrow>
          (let frameCount = length dataInt16 div numChannels in
           if numChannels = 0 \<or> frameCount = 0 \<or> sampleRate = 0 then Inl NotSupportedError
           else Inr \<lparr> ab_sampleRate = sampleRate, ab_length = frameCount,
                      ab_channelData =
                        map (\<lambda>channel.
                               map (\<lambda>i. real_of_int (sint (dataInt16 ! (i * numChannels + channel)))
                                          / 32768)
                                   [0 ..< frameCount])
                            [0 ..< numChannels] \<rparr>))"

section \<open>Live audio: the playback part of onmessage\<close>

text \<open>
  The state the handler keeps in refs: \<open>sourcesRef\<close>, the set of buffer sources that were
  started and have not ended (a source node is identified by the number of nodes created
  before it, and the set is kept in insertion order, the order in which a JavaScript
  \<open>Set\<close> is iterated), and \<open>nextStartTimeRef\<close>.  What the handler does to the audio graph is
  recorded as a list of effects: \<open>Start source when buffer\<close> for \<open>source.start(when)\<close> and
  \<open>Stop source\<close> for \<open>source.stop()\<close>.
\<close>

record live_state =
  sourcesRef :: "nat list"
  nextStartTimeRef :: real
  createdNodes :: nat

datatype audio_effect = Start nat real audio_buffer | Stop nat

text \<open>
  A server message, as far as the playback part reads it: the optional server content with
  its optional model turn and its \<open>interrupted\<close> flag; a model turn has an optional list of
  parts, a part an optional inline blob, a blob an optional data string.  The transcription
  bookkeeping at the head of the handler touches neither ref and is left out.
\<close>

record inline_blob =
  b_data :: "jsstring option"

record content_part =
  cp_inlineData :: "inline_blob option"

record model_turn =
  mt_parts :: "content_part list option"

record server_content =
  sc_modelTurn :: "model_turn option"
  sc_interrupted :: "bool option"

record server_message =
  serverContent :: "server_content option"

text \<open>
  \<open>message.serverContent?.modelTurn?.parts[0]?.inlineData?.data\<close>.  There is no \<open>?.\<close> before
  \<open>[0]\<close>: a model turn without parts raises a \<open>TypeError\<close>.  Every other missing piece makes
  the value undefined (\<open>None\<close>).
\<close>

definition inlineAudio :: "server_message \<Rightarrow> platform_exception + jsstring option" where
  "inlineAudio message =
     (case serverContent message of
        None \<Rightarrow> Inr None
      | Some content \<Rightarrow>
          (case sc_modelTurn content of
             None \<Rightarrow> Inr None
           | Some turn \<Rightarrow>
               (case mt_parts turn of
                  None \<Rightarrow> Inl TypeError
                | Some [] \<Rightarrow> Inr None
                | Some (p # ps) \<Rightarrow>
                    (case cp_inlineData p of
                       None \<Rightarrow> Inr None
                     | Some blob \<Rightarrow> Inr (b_data blob)))))"

text \<open>\<open>message.serverContent?.interrupted\<close>\<close>

definition interrupted :: "server_message \<Rightarrow> bool option" where
  "interrupted message =
     (case serverContent message of None \<Rightarrow> None | Some content \<Rightarrow> sc_interrupted content)"

text \<open>
  Two shapes of message: one whose model turn has a single part with the given audio
  string, and one without a model turn; both with the given \<open>interrupted\<close> flag.
\<close>

definition audioMessage :: "jsstring \<Rightarrow> bool option \<Rightarrow> server_message" where
  "audioMessage audio flag =
     \<lparr> serverContent = Some
         \<lparr> sc_modelTurn = Some \<lparr> mt_parts = Some [\<lparr> cp_inlineData = Some \<lparr> b_data = Some audio \<rparr> \<rparr>] \<rparr>,
           sc_interrupted = flag \<rparr> \<rparr>"

definition signalMessage :: "bool option \<Rightarrow> server_message" where
  "signalMessage flag = \<lparr> serverContent = Some \<lparr> sc_modelTurn = None, sc_interrupted = flag \<rparr> \<rparr>"

text \<open>
  The handler is asynchronous: an exception leaves the refs as they were when it was
  raised.  The outcome of one call is the state it leaves, the effects it had and the
  exception it raised, if any.
\<close>

record outcome =
  o_state :: live_state
  o_effects :: "audio_effect list"
  o_raised :: "platform_exception option"

definition handleInterrupted :: "server_message \<Rightarrow> live_state \<Rightarrow> audio_effect list \<Rightarrow> outcome" where
  "handleInterrupted message st effs =
     (if interrupted message = Some True
      then \<lparr> o_state = st\<lparr> sourcesRef := [], nextStartTimeRef := 0 \<rparr>,
             o_effects = effs @ map Stop (sourcesRef st), o_raised = None \<rparr>
      else \<lparr> o_state = st, o_effects = effs, o_raised = None \<rparr>)"

definition onmessage :: "live_state \<Rightarrow> real \<Rightarrow> server_message \<Rightarrow> outcome" where
  "onmessage st currentTime message =
     (case inlineAudio message of
        Inl e \<Rightarrow> \<lparr> o_state = st, o_effects = [], o_raised = Some e \<rparr>
      | Inr None \<Rightarrow> handleInterrupted message st []
      | Inr (Some base64EncodedAudioString) \<Rightarrow>
          if base64EncodedAudioString = [] then handleInterrupted message st []
          else
            let st1 = st\<lparr> nextStartTimeRef := max (nextStartTimeRef st) currentTime \<rparr> in
            (case decode base64EncodedAudioString of
               Inl e \<Rightarrow> \<lparr> o_state = st1, o_effects = [], o_raised = Some e \<rparr>
             | Inr bytes \<Rightarrow>
                 (case decodeAudioData bytes 24000 1 of
                    Inl e \<Rightarrow> \<lparr> o_state = st1, o_effects = [], o_raised = Some e \<rparr>
                  | Inr audioBuffer \<Rightarrow>
                      let source = createdNodes st1;
                          st2 = st1\<lparr> nextStartTimeRef := nextStartTimeRef st1 + duration audioBuffer,
                                     sourcesRef := sourcesRef st1 @ [source],
                                     createdNodes := Suc (createdNodes st1) \<rparr>
                      in handleInterrupted message st2
                           [Start source (nextStartTimeRef st1) audioBuffer])))"

text \<open>The \<open>ended\<close> listener of a source removes it from the tracked set.\<close>

definition onended :: "nat \<Rightarrow> live_state \<Rightarrow> live_state" where
  "onended source st = st\<lparr> sourcesRef := removeAll source (sourcesRef st) \<rparr>"

text \<open>
  Messages are handled one after the other; each comes with the value of
  \<open>outputAudioContext.currentTime\<close> at the moment it is handled.
\<close>

fun deliver :: "live_state \<Rightarrow> (real \<times> server_message) list \<Rightarrow> live_state \<times> audio_effect list" where
  "deliver st [] = (st, [])"
| "deliver st ((currentTime, message) # rest) =
     (let out = onmessage st currentTime message;
          (st', effs) = deliver (o_state out) rest
      in (st', o_effects out @ effs))"

text \<open>The clip a message carries: the buffer its audio string decodes to, if it does.\<close>

definition clipOf :: "server_message \<Rightarrow> audio_buffer option" where
  "clipOf message =
     (case inlineAudio message of
        Inr (Some s) \<Rightarrow>
          if s = [] then None
          else (case decode s of
                  Inl e \<Rightarrow> None
                | Inr bytes \<Rightarrow>
                    (case decodeAudioData bytes 24000 1 of Inl e \<Rightarrow> None | Inr b \<Rightarrow> Some b))
      | _ \<Rightarrow> None)"

text \<open>A message without audio: the audio string is undefined or empty.\<close>

definition noAudio :: "server_message \<Rightarrow> bool" where
  "noAudio message = (inlineAudio message = Inr None \<or> inlineAudio message = Inr (Some []))"

fun startTimes :: "audio_effect list \<Rightarrow> real list" where
  "startTimes [] = []"
| "startTimes (Start src t b # es) = t # startTimes es"
| "startTimes (Stop src # es) = startTimes es"

text \<open>
  The schedule as the specification words it: every clip starts at the maximum of the
  next scheduled start time and the playback clock, and the next scheduled start time is
  then that start plus the clip's duration.
\<close>

fun spec_schedule :: "real \<Rightarrow> (real \<times> real) list \<Rightarrow> real list" where
  "spec_schedule nextScheduled [] = []"
| "spec_schedule nextScheduled ((clock, d) # rest) =
     max nextScheduled clock # spec_schedule (max nextScheduled clock + d) rest"

definition arrival :: "real \<times> server_message \<Rightarrow> real \<times> real" where
  "arrival a = (fst a, duration (the (clipOf (snd a))))"

section \<open>JavaScript strings and regular expressions\<close>

text \<open>
  The string methods the handlers use.  \<open>trim\<close> removes white space and line terminators
  from both ends.  \<open>toLowerCase\<close> is modelled on the ASCII letters only: it is exact on ASCII
  strings and on strings of scripts without case (the Indic labels below).  The handlers
  apply it to constants, to a captured language name, and to the submitted text only in
  order to compare the result with the trip-plan labels; that comparison comes out as in
  JavaScript, because no letter outside ASCII has a lower-case form made of ASCII letters of
  "trip plan" or of code units of the Indic labels.
\<close>

definition isWhiteSpace :: "nat \<Rightarrow> bool" where
  "isWhiteSpace u =
     (u = 9 \<or> u = 10 \<or> u = 11 \<or> u = 12 \<or> u = 13 \<or> u = 32 \<or> u = 160 \<or> u = 5760 \<or>
      (8192 \<le> u \<and> u \<le> 8202) \<or> u = 8232 \<or> u = 8233 \<or> u = 8239 \<or> u = 8287 \<or>
      u = 12288 \<or> u = 65279)"

definition isLineTerminator :: "nat \<Rightarrow> bool" where
  "isLineTerminator u = (u = 10 \<or> u = 13 \<or> u = 8232 \<or> u = 8233)"

definition isWordChar :: "nat \<Rightarrow> bool" where
  "isWordChar u = ((48 \<le> u \<and> u \<le> 57) \<or> (65 \<le> u \<and> u \<le> 90) \<or> u = 95 \<or> (97 \<le> u \<and> u \<le> 122))"

definition trim :: "jsstring \<Rightarrow> jsstring" where
  "trim s = rev (dropWhile isWhiteSpace (rev (dropWhile isWhiteSpace s)))"

definition lowerUnit :: "nat \<Rightarrow> nat" where
  "lowerUnit u = (if 65 \<le> u \<and> u \<le> 90 then u + 32 else u)"

definition toLowerCase :: "jsstring \<Rightarrow> jsstring" where
  "toLowerCase s = map lowerUnit s"

definition startsWith :: "jsstring \<Rightarrow> jsstring \<Rightarrow> bool" where
  "startsWith s p = (take (length p) s = p)"

fun js_includes :: "jsstring \<Rightarrow> jsstring \<Rightarrow> bool" where
  "js_includes [] p = (p = [])"
| "js_includes (c # s) p = (startsWith (c # s) p \<or> js_includes s p)"

definition substring :: "jsstring \<Rightarrow> nat \<Rightarrow> nat \<Rightarrow> jsstring" where
  "substring s a b = take (max a b - min a b) (drop (min a b) s)"

text \<open>
  Regular expressions.  The patterns of the source use literals, alternatives, sequences,
  the word boundary \<open>\b\<close>, capturing groups, and quantifiers on two character classes only:
  \<open>\s\<close> (\<open>Space\<close>) and \<open>.\<close> (\<open>Dot\<close>, any code unit but a line terminator).  \<open>Greedy c lo hi\<close> is
  \<open>c{lo,hi}\<close> (\<open>hi = None\<close> for no upper bound, so \<open>\s+\<close> is \<open>Greedy Space 1 None\<close>) and \<open>Lazy\<close> its
  lazy form (\<open>.*?\<close> is \<open>Lazy Dot 0 None\<close>).

  \<open>matcher\<close> is the backtracking matcher of ECMAScript: from a state (a position and the
  captures so far) it lists the states in which the pattern can finish, in the order
  backtracking tries them.  With the flag \<open>i\<close> (\<open>ignoreCase\<close>) a literal is compared after
  canonicalisation; every literal of the source's patterns is ASCII, and an ASCII letter
  then matches its two cases and nothing else.
\<close>

datatype char_class = Space | Dot

definition inClass :: "char_class \<Rightarrow> nat \<Rightarrow> bool" where
  "inClass c u = (case c of Space \<Rightarrow> isWhiteSpace u | Dot \<Rightarrow> \<not> isLineTerminator u)"

datatype regex =
    Lit jsstring
  | Alt "regex list"
  | Seq "regex list"
  | WordBoundary
  | Greedy char_class nat "nat option"
  | Lazy char_class nat "nat option"
  | Group regex

type_synonym mstate = "nat \<times> (nat \<times> nat) list"

definition canonicalize :: "bool \<Rightarrow> nat \<Rightarrow> nat" where
  "canonicalize ignoreCase u = (if ignoreCase \<and> 97 \<le> u \<and> u \<le> 122 then u - 32 else u)"

definition litMatches :: "bool \<Rightarrow> jsstring \<Rightarrow> jsstring \<Rightarrow> nat \<Rightarrow> bool" where
  "litMatches ignoreCase p s i =
     (i + length p \<le> length s \<and>
      map (canonicalize ignoreCase) (take (length p) (drop i s)) = map (canonicalize ignoreCase) p)"

definition atWordBoundary :: "jsstring \<Rightarrow> nat \<Rightarrow> bool" where
  "atWordBoundary s i =
     ((0 < i \<and> i \<le> length s \<and> isWordChar (s ! (i - 1))) \<noteq> (i < length s \<and> isWordChar (s ! i)))"

definition runLength :: "char_class \<Rightarrow> nat option \<Rightarrow> jsstring \<Rightarrow> nat \<Rightarrow> nat" where
  "runLength c hi s i =
     (let n = length (takeWhile (inClass c) (drop i s)) in
      case hi of None \<Rightarrow> n | Some h \<Rightarrow> min h n)"

fun matcher :: "bool \<Rightarrow> regex \<Rightarrow> jsstring \<Rightarrow> mstate \<Rightarrow> mstate list" where
  "matcher ic (Lit p) s (i, caps) = (if litMatches ic p s i then [(i + length p, caps)] else [])"
| "matcher ic (Alt rs) s st = concat (map (\<lambda>r. matcher ic r s st) rs)"
| "matcher ic (Seq []) s st = [st]"
| "matcher ic (Seq (r # rs)) s st = concat (map (matcher ic (Seq rs) s) (matcher ic r s st))"
| "matcher ic WordBoundary s (i, caps) = (if atWordBoundary s i then [(i, caps)] else [])"
| "matcher ic (Greedy c lo hi) s (i, caps) =
     map (\<lambda>k. (i + k, caps)) (rev [lo ..< Suc (runLength c hi s i)])"
| "matcher ic (Lazy c lo hi) s (i, caps) =
     map (\<lambda>k. (i + k, caps)) [lo ..< Suc (runLength c hi s i)]"
| "matcher ic (Group r) s (i, caps) =
     map (\<lambda>(e, caps'). (e, caps' @ [(i, e)])) (matcher ic r s (i, caps))"

text \<open>
  \<open>exec\<close> is a match without the flag \<open>g\<close>: the leftmost start position at which the
  matcher succeeds, with the first result there; \<open>mr_groups\<close> are the captured substrings
  (\<open>match[1]\<close> is \<open>mr_groups ! 0\<close>).
\<close>

record match_result =
  mr_index :: nat
  mr_end :: nat
  mr_groups :: "jsstring list"

fun execFrom :: "bool \<Rightarrow> regex \<Rightarrow> jsstring \<Rightarrow> nat \<Rightarrow> nat \<Rightarrow> match_result option" where
  "execFrom ic r s i 0 =
     (case matcher ic r s (i, []) of
        [] \<Rightarrow> None
      | (e, caps) # _ \<Rightarrow> Some \<lparr> mr_index = i, mr_end = e, mr_groups = map (\<lambda>(a, b). take (b - a) (drop a s)) caps \<rparr>)"
| "execFrom ic r s i (Suc n) =
     (case matcher ic r s (i, []) of
        [] \<Rightarrow> execFrom ic r s (Suc i) n
      | (e, caps) # _ \<Rightarrow> Some \<lparr> mr_index = i, mr_end = e, mr_groups = map (\<lambda>(a, b). take (b - a) (drop a s)) caps \<rparr>)"

definition exec :: "bool \<Rightarrow> regex \<Rightarrow> jsstring \<Rightarrow> match_result option" where
  "exec ic r s = execFrom ic r s 0 (length s)"

definition test :: "bool \<Rightarrow> regex \<Rightarrow> jsstring \<Rightarrow> bool" where
  "test ic r s = (exec ic r s \<noteq> None)"

text \<open>The patterns of \<open>handleSendMessage\<close>, all used with the flag \<open>i\<close>.\<close>

definition imageGenRegex :: regex where
  "imageGenRegex =
     Seq [WordBoundary,
          Group (Alt (map (\<lambda>w. Lit (js w))
            [''generate'', ''create'', ''draw'', ''make'', ''imagine'', ''show me'', ''give me'',
             ''produce'', ''render'', ''paint'', ''picture'', ''photo'', ''drawing'', ''painting'',
             ''illustration'', ''artwork'', ''sketch'', ''portrait''])),
          WordBoundary]"

definition imageGenBlockRegex :: regex where
  "imageGenBlockRegex =
     Seq [WordBoundary,
          Group (Alt (map (\<lambda>w. Lit (js w)) [''what'', ''how'', ''why'', ''explain'', ''describe''])),
          WordBoundary,
          Greedy Dot 0 (Some 50),
          WordBoundary,
          Group (Alt (map (\<lambda>w. Lit (js w)) [''to'', ''do you'', ''is it possible to''])),
          Greedy Space 0 None,
          Group (Alt (map (\<lambda>w. Lit (js w)) [''generate'', ''create'', ''draw'', ''make'', ''edit'']))]"

text \<open>
  The language pattern is built from the names of \<open>LANGUAGES\<close>, lower-cased and joined with
  \<open>|\<close>; the names are taken as literals (they are the names of languages).  With no
  language at all the group is empty and matches the empty string.
\<close>

definition langChangeRegex :: "jsstring list \<Rightarrow> regex" where
  "langChangeRegex names =
     Seq [WordBoundary,
          Alt (map (\<lambda>w. Lit (js w))
            [''in'', ''speak'', ''talk in'', ''use'', ''change to'', ''switch to'', ''respond in'']),
          Greedy Space 1 None,
          Group (Alt (if names = [] then [Lit []] else map (\<lambda>n. Lit (toLowerCase n)) names)),
          WordBoundary]"

text \<open>The pattern of inline image markdown, \<open>/!\[.*?\]\(.*?\)/g\<close>.\<close>

definition imageMarkdownRegex :: regex where
  "imageMarkdownRegex =
     Seq [Lit (js ''!['') , Lazy Dot 0 None, Lit (js ''](''), Lazy Dot 0 None, Lit (js '')'')]"

text \<open>
  \<open>s.replace(r, '')\<close> for a pattern with the flag \<open>g\<close>: scanning from the left, every match
  is dropped and the scan goes on behind it; an empty match drops nothing.
\<close>

function removeMatches :: "bool \<Rightarrow> regex \<Rightarrow> jsstring \<Rightarrow> nat \<Rightarrow> jsstring" where
  "removeMatches ic r s i =
     (if length s \<le> i then []
      else (case matcher ic r s (i, []) of
              [] \<Rightarrow> s ! i # removeMatches ic r s (Suc i)
            | (e, caps) # _ \<Rightarrow>
                if i < e then removeMatches ic r s e
                else s ! i # removeMatches ic r s (Suc i)))"
  by pat_completeness auto
termination
  by (relation "measure (\<lambda>(ic, r, s, i). length s - i)") auto

section \<open>Inline image markdown, stated on the text\<close>

text \<open>
  The spans a replace with the flag \<open>g\<close> removes: scanning from the left, every non-empty
  match with its start and its end (exclusive); the scan goes on behind a match.
\<close>

function scanSpans :: "bool \<Rightarrow> regex \<Rightarrow> jsstring \<Rightarrow> nat \<Rightarrow> (nat \<times> nat) list" where
  "scanSpans ic r s i =
     (if length s \<le> i then []
      else (case matcher ic r s (i, []) of
              [] \<Rightarrow> scanSpans ic r s (Suc i)
            | (e, caps) # _ \<Rightarrow>
                if i < e then (i, e) # scanSpans ic r s e
                else scanSpans ic r s (Suc i)))"
  by pat_completeness auto
termination
  by (relation "measure (\<lambda>(ic, r, s, i). length s - i)") auto

text \<open>
  Image markdown without reference to the pattern.  In \<open>s\<close> there is \<open>![\<close> at \<open>i\<close>, \<open>](\<close> at
  \<open>j\<close> behind it and \<open>)\<close> at \<open>k\<close> behind that, with no line terminator from behind the
  \<open>![\<close> up to the \<open>)\<close>.
\<close>

definition imageMarkdownAt :: "jsstring \<Rightarrow> nat \<Rightarrow> nat \<Rightarrow> nat \<Rightarrow> bool" where
  "imageMarkdownAt s i j k =
     (take 2 (drop i s) = js ''!['' \<and> i + 2 \<le> j \<and>
      take 2 (drop j s) = js '']('' \<and> j + 2 \<le> k \<and>
      take 1 (drop k s) = js '')'' \<and>
      (\<forall>p \<in> {i + 2 ..< k}. \<not> isLineTerminator (s ! p)))"

text \<open>
  The closing \<open>)\<close> at \<open>k\<close>, reached from \<open>q\<close> without passing a line terminator.
\<close>

definition closeAt :: "jsstring \<Rightarrow> nat \<Rightarrow> nat \<Rightarrow> bool" where
  "closeAt s q k = (q \<le> k \<and> take 1 (drop k s) = js '')'' \<and> (\<forall>p \<in> {q ..< k}. \<not> isLineTerminator (s ! p)))"

text \<open>
  The image markdown that starts at \<open>a\<close> and is read with the shortest alternative text and
  then the shortest address: it ends at \<open>e\<close> (exclusive).
\<close>

definition imageMatch :: "jsstring \<Rightarrow> nat \<Rightarrow> nat \<Rightarrow> bool" where
  "imageMatch s a e =
     (\<exists>j k. imageMarkdownAt s a j k \<and> e = Suc k \<and>
            (\<forall>j' k'. imageMarkdownAt s a j' k' \<longrightarrow> j < j' \<or> (j = j' \<and> k \<le> k')))"

text \<open>A position is covered by a list of spans when it lies in one of them.\<close>

definition covered :: "(nat \<times> nat) list \<Rightarrow> nat \<Rightarrow> bool" where
  "covered spans p = (\<exists>(a, e) \<in> set spans. a \<le> p \<and> p < e)"

text \<open>
  The spans of one pass over \<open>s\<close> from the left: every span is image markdown read as
  above, the spans follow each other without overlap, and no image markdown starts at a
  position that no span covers.
\<close>

definition imageSpans :: "jsstring \<Rightarrow> (nat \<times> nat) list \<Rightarrow> bool" where
  "imageSpans s spans =
     ((\<forall>(a, e) \<in> set spans. imageMatch s a e) \<and>
      sorted_wrt (\<lambda>x y. snd x \<le> fst y) spans \<and>
      (\<forall>p e. p < length s \<and> \<not> covered spans p \<longrightarrow> \<not> imageMatch s p e))"

text \<open>The text outside the spans.\<close>

definition outside :: "jsstring \<Rightarrow> (nat \<times> nat) list \<Rightarrow> jsstring" where
  "outside s spans = map ((!) s) (filter (\<lambda>p. \<not> covered spans p) [0 ..< length s])"

section \<open>Video generation (generateVideo, handleVideoGeneration)\<close>

text \<open>The truth value of an optional string: undefined, null and the empty string are falsy.\<close>

definition truthyStr :: "jsstring option \<Rightarrow> bool" where
  "truthyStr s = (case s of None \<Rightarrow> False | Some v \<Rightarrow> v \<noteq> [])"

text \<open>
  The backend is modelled by what it answers.  An operation carries the flag \<open>done\<close> and the
  value of \<open>operation.response?.generatedVideos?.[0]?.video?.uri\<close>.  \<open>vb_generateVideos\<close> is
  the result of submitting the job, \<open>vb_getVideosOperation\<close> the results of the successive
  polls; each is an operation or a raised error.
\<close>

record operation =
  op_done :: "bool option"
  op_uri :: "jsstring option"

record video_backend =
  vb_generateVideos :: "js_error + operation"
  vb_getVideosOperation :: "(js_error + operation) list"

datatype aspect_ratio = Landscape | Portrait

text \<open>
  The polling loop has no bound of its own.  It is run against the list of poll results the
  backend gives: \<open>None\<close> means that the loop is still waiting when the list is used up, that
  is, the job was never seen done.
\<close>

fun pollLoop :: "operation \<Rightarrow> (js_error + operation) list \<Rightarrow> (js_error + operation) option" where
  "pollLoop operation polls =
     (if truthy (op_done operation) then Some (Inr operation)
      else (case polls of
              [] \<Rightarrow> None
            | Inl e # rest \<Rightarrow> Some (Inl e)
            | Inr operation' # rest \<Rightarrow> pollLoop operation' rest))"

definition generateVideo ::
  "jsstring \<Rightarrow> video_backend \<Rightarrow> uploaded_file \<Rightarrow> jsstring \<Rightarrow> aspect_ratio \<Rightarrow> (js_error + jsstring) option" where
  "generateVideo apiKey backend file prompt aspectRatio =
     (case vb_generateVideos backend of
        Inl e \<Rightarrow> Some (Inl e)
      | Inr operation0 \<Rightarrow>
          (case pollLoop operation0 (vb_getVideosOperation backend) of
             None \<Rightarrow> None
           | Some (Inl e) \<Rightarrow> Some (Inl e)
           | Some (Inr operation) \<Rightarrow>
               if \<not> truthyStr (op_uri operation)
               then Some (Inl (Error (js ''Video generation completed but no download link was found.'')))
               else Some (Inr (the (op_uri operation) @ js ''&key='' @ apiKey))))"

text \<open>
  Several handlers append a user message and a bot message with the same updater: a
  session that holds only the welcome message is replaced by the two, any other session
  gets them appended.
\<close>

definition appendTurn :: "chat_message \<Rightarrow> chat_message \<Rightarrow> chat_message list \<Rightarrow> chat_message list" where
  "appendTurn userMessage botMessage prev =
     (if length prev = 1 \<and> truthy (m_isWelcome (prev ! 0)) then [userMessage, botMessage]
      else prev @ [userMessage, botMessage])"

text \<open>\<open>(error instanceof Error) ? error.message : "An unknown error occurred."\<close>\<close>

definition errorMessage :: "js_error \<Rightarrow> jsstring" where
  "errorMessage error = (case error of Error m \<Rightarrow> m | Thrown \<Rightarrow> js ''An unknown error occurred.'')"

text \<open>
  \<open>handleVideoGeneration\<close> runs in two steps around the awaited call: the start appends the
  user message and the placeholder, and, once \<open>generateVideo\<close> has returned or raised, the
  second step resolves the placeholder.  \<open>now1\<close> and \<open>now2\<close> are the two readings of
  \<open>Date.now()\<close>.  The result of the whole handler is the list of session lists it leaves
  behind: none without an active session, one while the job is pending, two once resolved.
\<close>

definition handleVideoGeneration_start ::
  "jsstring \<Rightarrow> int \<Rightarrow> int \<Rightarrow> uploaded_file \<Rightarrow> jsstring \<Rightarrow> chat_session list \<Rightarrow> chat_session list" where
  "handleVideoGeneration_start activeSessionId now1 now2 file prompt prevSessions =
     (let userMessage = (mk_message now1 (js ''(Video Prompt: '' @ prompt @ js '')'') User)
                          \<lparr> m_files := Some [file] \<rparr>;
          botMessageId = now2 + 1;
          botMessagePlaceholder = (mk_message botMessageId [] Bot)
                          \<lparr> m_isLoading := Some True, m_videoState := Some Generating \<rparr>
      in updateSessionMessages activeSessionId
           (Updater (appendTurn userMessage botMessagePlaceholder)) prevSessions)"

definition handleVideoGeneration_settle ::
  "jsstring \<Rightarrow> int \<Rightarrow> js_error + jsstring \<Rightarrow> chat_session list \<Rightarrow> chat_session list" where
  "handleVideoGeneration_settle activeSessionId botMessageId result prevSessions =
     (case result of
        Inr videoUri \<Rightarrow>
          (let finalBotMessage = (mk_message botMessageId (js ''Here is the generated video:'') Bot)
                 \<lparr> m_isLoading := Some False, m_videoState := Some Done, m_videoUrl := Some videoUri \<rparr>
           in updateSessionMessages activeSessionId
                (Updater (map (\<lambda>msg. if m_id msg = botMessageId then finalBotMessage else msg)))
                prevSessions)
      | Inl error \<Rightarrow>
          updateSessionMessages activeSessionId
            (Updater (map (\<lambda>msg. if m_id msg = botMessageId
                                 then msg\<lparr> m_text := js ''Sorry, I couldn't generate the video. Error: ''
                                                      @ errorMessage error,
                                          m_isLoading := Some False,
                                          m_videoState := Some Failed \<rparr>
                                 else msg)))
            prevSessions)"

definition handleVideoGeneration ::
  "jsstring option \<Rightarrow> int \<Rightarrow> int \<Rightarrow> jsstring \<Rightarrow> video_backend \<Rightarrow> uploaded_file \<Rightarrow> jsstring \<Rightarrow>
   aspect_ratio \<Rightarrow> chat_session list \<Rightarrow> chat_session list list" where
  "handleVideoGeneration activeSessionId now1 now2 apiKey backend file prompt aspectRatio prevSessions =
     (if \<not> truthyStr activeSessionId then []
      else
        let sid = the activeSessionId;
            started = handleVideoGeneration_start sid now1 now2 file prompt prevSessions
        in (case generateVideo apiKey backend file prompt aspectRatio of
              None \<Rightarrow> [started]
            | Some result \<Rightarrow> [started, handleVideoGeneration_settle sid (now2 + 1) result started]))"

definition resolvedState :: "js_error + jsstring \<Rightarrow> video_state" where
  "resolvedState result = (case result of Inl e \<Rightarrow> Failed | Inr uri \<Rightarrow> Done)"

section \<open>The streamed reply of handleSendMessage\<close>

text \<open>
  A chunk of the stream carries its text (possibly undefined) and the grounding chunks of
  its first candidate, \<open>chunk.candidates?.[0]?.groundingMetadata?.groundingChunks\<close>.  A grounding
  chunk has a web citation, or a list of map place sources, or neither.  The stream as a
  whole is the list of chunks it yields and the error it raises after them, if any.
\<close>

record grounding_web =
  gw_uri :: "jsstring option"
  gw_title :: "jsstring option"

record place_source =
  ps_uri :: "jsstring option"
  ps_displayName :: "jsstring option"

record grounding_chunk =
  gc_web :: "grounding_web option"
  gc_placeAnswerSources :: "place_source list option"

record chunk =
  ch_text :: "jsstring option"
  ch_groundingChunks :: "grounding_chunk list option"

record reply_stream =
  rs_chunks :: "chunk list"
  rs_error :: "js_error option"

text \<open>\<open>fullResponse += chunk.text\<close>: an undefined text appends the string "undefined".\<close>

definition chunkText :: "chunk \<Rightarrow> jsstring" where
  "chunkText c = (case ch_text c of None \<Rightarrow> js ''undefined'' | Some t \<Rightarrow> t)"

text \<open>
  The citations of one chunk: the web citation of every grounding chunk that has one, else
  its place sources with \<open>displayName\<close> as title; those without a non-empty \<open>uri\<close> are
  filtered out.
\<close>

definition citations :: "grounding_chunk \<Rightarrow> (jsstring option \<times> jsstring option) list" where
  "citations c =
     (case gc_web c of
        Some web \<Rightarrow> [(gw_uri web, gw_title web)]
      | None \<Rightarrow>
          (case gc_placeAnswerSources c of
             Some places \<Rightarrow> map (\<lambda>p. (ps_uri p, ps_displayName p)) places
           | None \<Rightarrow> []))"

definition webChunks :: "chunk \<Rightarrow> source_ref list" where
  "webChunks c =
     (case ch_groundingChunks c of
        None \<Rightarrow> []
      | Some groundingChunks \<Rightarrow>
          map (\<lambda>(uri, title). \<lparr> src_uri = the uri, src_title = title \<rparr>)
              (filter (\<lambda>(uri, title). truthyStr uri) (concat (map citations groundingChunks))))"

text \<open>
  \<open>Array.from(new Map(sources.map(s => [s.uri, s])).values())\<close>.  A \<open>Map\<close> keeps its keys in
  the order of their first insertion; setting a key that is present replaces its value
  in place.
\<close>

fun mapSet :: "('k \<times> 'v) list \<Rightarrow> 'k \<Rightarrow> 'v \<Rightarrow> ('k \<times> 'v) list" where
  "mapSet [] k v = [(k, v)]"
| "mapSet ((k', v') # m) k v = (if k' = k then (k, v) # m else (k', v') # mapSet m k v)"

definition newMap :: "('k \<times> 'v) list \<Rightarrow> ('k \<times> 'v) list" where
  "newMap entries = foldl (\<lambda>m (k, v). mapSet m k v) [] entries"

definition uniqueSources :: "source_ref list \<Rightarrow> source_ref list" where
  "uniqueSources sources = map snd (newMap (map (\<lambda>s. (src_uri s, s)) sources))"

text \<open>
  The loop over the chunks: the text and the citations are accumulated, and after every
  chunk the placeholder's text is updated (its loading flag stays set).  The loop returns
  the accumulated text, the collected citations and the session list after each chunk.
\<close>

definition streamingUpdate :: "int \<Rightarrow> jsstring \<Rightarrow> chat_message list \<Rightarrow> chat_message list" where
  "streamingUpdate botMessageId fullResponse prev =
     map (\<lambda>msg. if m_id msg = botMessageId
                then msg\<lparr> m_text := fullResponse, m_isLoading := Some True \<rparr> else msg) prev"

fun streamLoop ::
  "jsstring \<Rightarrow> int \<Rightarrow> chunk list \<Rightarrow> jsstring \<Rightarrow> source_ref list \<Rightarrow> chat_session list \<Rightarrow>
   jsstring \<times> source_ref list \<times> chat_session list list" where
  "streamLoop activeSessionId botMessageId [] fullResponse sources prevSessions =
     (fullResponse, sources, [])"
| "streamLoop activeSessionId botMessageId (chunk # rest) fullResponse sources prevSessions =
     (let fullResponse' = fullResponse @ chunkText chunk;
          sources' = sources @ webChunks chunk;
          sessions' = updateSessionMessages activeSessionId
                        (Updater (streamingUpdate botMessageId fullResponse')) prevSessions;
          (fullResponse'', sources'', snapshots) =
             streamLoop activeSessionId botMessageId rest fullResponse' sources' sessions'
      in (fullResponse'', sources'', sessions' # snapshots))"

text \<open>The handler of the \<open>catch\<close> block.\<close>

definition failedReply :: "jsstring \<Rightarrow> int \<Rightarrow> chat_session list \<Rightarrow> chat_session list" where
  "failedReply activeSessionId botMessageId prevSessions =
     updateSessionMessages activeSessionId
       (Updater (map (\<lambda>msg. if m_id msg = botMessageId
                            then msg\<lparr> m_text := js ''Sorry, I encountered an error. Please try again.'',
                                     m_isLoading := Some False \<rparr>
                            else msg)))
       prevSessions"

definition cleanedText :: "jsstring \<Rightarrow> jsstring" where
  "cleanedText fullResponse = trim (removeMatches False imageMarkdownRegex fullResponse 0)"

definition finalBotMessage :: "int \<Rightarrow> jsstring \<Rightarrow> source_ref list \<Rightarrow> chat_message" where
  "finalBotMessage botMessageId fullResponse sources =
     (mk_message botMessageId (cleanedText fullResponse) Bot)
       \<lparr> m_sources := Some (uniqueSources sources), m_isLoading := Some False \<rparr>"

text \<open>\<open>table[key] || table[fallback]\<close> for a table of strings.\<close>

definition orElse :: "(jsstring \<Rightarrow> jsstring option) \<Rightarrow> jsstring \<Rightarrow> jsstring \<Rightarrow> jsstring option" where
  "orElse table key fallback = (if truthyStr (table key) then table key else table fallback)"

text \<open>
  What happens once \<open>sendMessage\<close> has returned the stream or raised: the session list at
  the end, the session lists after each chunk, the counter of user turns and the timeouts
  set (the delay and the text handed to \<open>addSystemMessage\<close>).  The table of sustainability
  tips is a constant that is not among the sources and is a parameter.
\<close>

record stream_result =
  sr_sessions :: "chat_session list"
  sr_snapshots :: "chat_session list list"
  sr_userMessageCount :: nat
  sr_timeouts :: "(nat \<times> jsstring option) list"

definition finishReply ::
  "(jsstring \<Rightarrow> jsstring option) \<Rightarrow> jsstring \<Rightarrow> jsstring \<Rightarrow> int \<Rightarrow> js_error + reply_stream \<Rightarrow> nat \<Rightarrow>
   chat_session list \<Rightarrow> stream_result" where
  "finishReply sustainabilityTips languageCode activeSessionId botMessageId reply userMessageCount prevSessions =
     (case reply of
        Inl error \<Rightarrow>
          \<lparr> sr_sessions = failedReply activeSessionId botMessageId prevSessions, sr_snapshots = [],
            sr_userMessageCount = userMessageCount, sr_timeouts = [] \<rparr>
      | Inr stream \<Rightarrow>
          (let (fullResponse, sources, snapshots) =
                 streamLoop activeSessionId botMessageId (rs_chunks stream) [] [] prevSessions;
               latest = (if snapshots = [] then prevSessions else last snapshots)
           in (case rs_error stream of
                 Some error \<Rightarrow>
                   \<lparr> sr_sessions = failedReply activeSessionId botMessageId latest,
                     sr_snapshots = snapshots,
                     sr_userMessageCount = userMessageCount, sr_timeouts = [] \<rparr>
               | None \<Rightarrow>
                   \<lparr> sr_sessions =
                       updateSessionMessages activeSessionId
                         (Updater (map (\<lambda>msg. if m_id msg = botMessageId
                                              then finalBotMessage botMessageId fullResponse sources
                                              else msg)))
                         latest,
                     sr_snapshots = snapshots,
                     sr_userMessageCount = (if 5 \<le> userMessageCount then 0 else userMessageCount),
                     sr_timeouts =
                       (if 5 \<le> userMessageCount
                        then [(500, orElse sustainabilityTips languageCode (js ''en-US''))]
                        else []) \<rparr>)))"

text \<open>The accumulated text and the collected citations of a list of chunks.\<close>

definition accumulated :: "chunk list \<Rightarrow> jsstring" where
  "accumulated chunks = concat (map chunkText chunks)"

definition collected :: "chunk list \<Rightarrow> source_ref list" where
  "collected chunks = concat (map webChunks chunks)"

text \<open>The session list in which the placeholder shows the streamed text \<open>t\<close>.\<close>

definition streamed :: "jsstring \<Rightarrow> int \<Rightarrow> jsstring \<Rightarrow> chat_session list \<Rightarrow> chat_session list" where
  "streamed sid bid t ss =
     updateSessionMessages sid
       (Updater (map (\<lambda>msg. if m_id msg = bid then msg\<lparr> m_text := t, m_isLoading := Some True \<rparr> else msg)))
       ss"

section \<open>The intent router (handleSendMessage)\<close>

text \<open>
  The constants module is not among the sources.  What the handlers read from it is taken
  as a parameter: the supported languages, the art styles, and the table of trip-plan
  replies.
\<close>

record language =
  l_code :: jsstring
  l_name :: jsstring
  l_nativeName :: jsstring

record constants =
  LANGUAGES :: "language list"
  ART_STYLES :: "jsstring list"
  TRIP_PLAN_PROMPT :: "jsstring \<Rightarrow> jsstring option"

text \<open>
  \<open>initialSuggestions\<close>: for each language code the six quick-start suggestions.  The handler
  reads only their texts, which are given here, in order (a non-ASCII label as the list of
  its code units); there is no entry for any other code.
\<close>

definition initialSuggestions :: "jsstring \<Rightarrow> jsstring list option" where
  "initialSuggestions code =
     (
      if code = js ''en-US'' then
        Some [[84, 111, 100, 97, 121, 39, 115, 32, 66, 114, 105, 101, 102, 105, 110, 103],
            js ''Explore Beaches'',
            js ''Find Hotels'',
            js ''Local Food'',
            js ''Temple Visits'',
            js ''Trip Plan'']
      else if code = js ''hi-IN'' then
        Some [[2310, 2332, 32, 2325, 2368, 32, 2348, 2381, 2352, 2368, 2347, 2367, 2306, 2327],
            [2360, 2350, 2369, 2342, 2381, 2352, 32, 2340, 2335],
            [2361, 2379, 2335, 2354, 32, 2326, 2379, 2332, 2375, 2306],
            [2360, 2381, 2341, 2366, 2344, 2368, 2351, 32, 2349, 2379, 2332, 2344],
            [2350, 2306, 2342, 2367, 2352, 32, 2342, 2352, 2381, 2358, 2344],
            [2351, 2366, 2340, 2381, 2352, 2366, 32, 2351, 2379, 2332, 2344, 2366]]
      else if code = js ''kn-IN'' then
        Some [[3207, 3202, 3238, 3263, 3240, 32, 3244, 3277, 3248, 3264, 3243, 3263, 3202, 3223, 3277],
            [3221, 3233, 3250, 3236, 3264, 3248, 3223, 3251, 3265],
            [3257, 3275, 3231, 3270, 3250, 3277, 8204, 3223, 3251, 3265],
            [3256, 3277, 3237, 3251, 3264, 3247, 32, 3206, 3257, 3262, 3248],
            [3238, 3271, 3253, 3262, 3250, 3247, 32, 3245, 3271, 3231, 3263, 3223, 3251, 3265],
            [3242, 3277, 3248, 3253, 3262, 3256, 32, 3247, 3275, 3228, 3240, 3270]]
      else if code = js ''ta-IN'' then
        Some [[2951, 2985, 3021, 2993, 3016, 2991, 32, 2949, 2993, 3007, 2965, 3021, 2965, 3016],
            [2965, 2975, 2993, 3021, 2965, 2992, 3016, 2965, 2995, 3021],
            [3001, 3019, 2975, 3021, 2975, 2994, 3021, 2965, 2995, 3021],
            [2953, 2995, 3021, 2995, 3010, 2992, 3021, 32, 2953, 2979, 2997, 3009],
            [2965, 3019, 2997, 3007, 2994, 3021, 32, 2997, 2992, 3009, 2965, 3016, 2965, 2995, 3021],
            [2986, 2991, 2979, 2980, 3021, 32, 2980, 3007, 2975, 3021, 2975, 2990, 3021]]
      else if code = js ''te-IN'' then
        Some [[3112, 3143, 3103, 3135, 32, 3116, 3149, 3120, 3136, 3115, 3135, 3074, 3095, 3149],
            [3116, 3136, 3098, 3149, 8204, 3122, 3137],
            [3257, 3147, 3103, 3123, 3149, 3123, 3137],
            [3256, 3277, 3237, 3134, 3112, 3135, 3093, 32, 3078, 3129, 3134, 3120, 3074],
            [3078, 3122, 3119, 32, 3128, 3074, 3110, 3120, 3149, 3126, 3112, 3122, 3137],
            [3103, 3149, 3120, 3135, 3114, 3149, 32, 3114, 3149, 3122, 3134, 3112, 3149]]
      else if code = js ''ml-IN'' then
        Some [[3335, 3368, 3405, 3368, 3364, 3405, 3364, 3398, 32, 3372, 3405, 3376, 3392, 3371, 3391, 3330, 3351, 3405],
            [3372, 3392, 3354, 3405, 3354, 3393, 3349, 3454],
            [3385, 3403, 3359, 3405, 3359, 3378, 3393, 3349, 3454],
            [3370, 3405, 3376, 3390, 3366, 3399, 3382, 3391, 3349, 32, 3373, 3349, 3405, 3383, 3363, 3330],
            [3349, 3405, 3383, 3399, 3364, 3405, 3376, 32, 3384, 3368, 3405, 3366, 3452, 3382, 3368, 3330],
            [3375, 3390, 3364, 3405, 3376, 3390, 32, 3370, 3366, 3405, 3367, 3364, 3391]]
      else None)"

text \<open>
  A submission: the text, the attached files and the optional prompt override of a
  suggestion chip.
\<close>

record payload =
  p_text :: jsstring
  p_files :: "uploaded_file list"
  p_prompt :: "jsstring option"

text \<open>The user's location; the two numbers as a template literal prints them.\<close>

record location =
  latitude :: jsstring
  longitude :: jsstring

text \<open>
  The state the handler reads and writes: the React state (\<open>sessions\<close>, \<open>activeSessionId\<close>,
  \<open>pendingImagePrompt\<close>, \<open>isBotSpeaking\<close>, \<open>userLocation\<close>) and the refs (\<open>userMessageCount\<close>, and
  \<open>chatSessionRef\<close>, which holds a chat handle or null; a handle is identified by a number).
\<close>

record app_state =
  sessions :: "chat_session list"
  activeSessionId :: "jsstring option"
  pendingImagePrompt :: "jsstring option"
  isBotSpeaking :: bool
  userLocation :: "location option"
  userMessageCount :: nat
  chatSessionRef :: "nat option"

text \<open>A part of a chat message sent to the backend: text, or inline data with its MIME type.\<close>

datatype part = TextPart jsstring | InlineData jsstring jsstring

text \<open>
  What a handler does outside the state: it cancels speech synthesis, or it calls the
  backend (\<open>generateImage(prompt)\<close>, \<open>editImage(file, prompt)\<close>,
  \<open>sendMessage(chat, parts)\<close>).
\<close>

datatype effect =
    SpeechCancel
  | GenerateImage jsstring
  | EditImage uploaded_file jsstring
  | SendMessage nat "part list"

definition backendCalls :: "effect list \<Rightarrow> effect list" where
  "backendCalls effs = filter (\<lambda>e. e \<noteq> SpeechCancel) effs"

text \<open>
  The action of a submission: which of the handler's return statements it reached, with
  the arguments of the action.  \<open>Ignored\<close> is the return of the two guards at the head of the
  handler; \<open>Crashed\<close> is an exception that leaves the handler.
\<close>

datatype action =
    Ignored
  | LanguageSwitch language
  | StyleSelection jsstring jsstring
  | ImageEdit jsstring uploaded_file
  | ImageRequest
  | TripPlan
  | StandardMessage
  | Crashed

text \<open>The backend call a handler is left awaiting, with the id of the placeholder it will resolve.\<close>

datatype awaited = ImageGenerationCall int | ImageEditCall int | StreamCall int

record send_result =
  r_state :: app_state
  r_effects :: "effect list"
  r_action :: action
  r_awaited :: "awaited option"
  r_raised :: "platform_exception option"

definition returned :: "action \<Rightarrow> app_state \<Rightarrow> effect list \<Rightarrow> awaited option \<Rightarrow> send_result" where
  "returned a st effs aw =
     \<lparr> r_state = st, r_effects = SpeechCancel # effs, r_action = a, r_awaited = aw, r_raised = None \<rparr>"

text \<open>
  The language rule.  The trimmed text is matched against the language pattern; the
  captured name, lower-cased, selects the first language with that lower-cased name; the
  rule fires when that language's code differs from the current session's.
\<close>

definition languageSwitchTarget :: "constants \<Rightarrow> jsstring \<Rightarrow> chat_session \<Rightarrow> language option" where
  "languageSwitchTarget c text currentSession =
     (case exec True (langChangeRegex (map l_name (LANGUAGES c))) (trim text) of
        None \<Rightarrow> None
      | Some match \<Rightarrow>
          (case mr_groups match of
             [] \<Rightarrow> None
           | requested # _ \<Rightarrow>
               (case find (\<lambda>l. toLowerCase (l_name l) = toLowerCase requested) (LANGUAGES c) of
                  None \<Rightarrow> None
                | Some targetLanguage \<Rightarrow>
                    if l_code targetLanguage \<noteq> s_languageCode currentSession
                    then Some targetLanguage else None)))"

definition switchLanguage ::
  "jsstring \<Rightarrow> int \<Rightarrow> int \<Rightarrow> jsstring \<Rightarrow> language \<Rightarrow> chat_session list \<Rightarrow> chat_session list" where
  "switchLanguage activeId now1 now2 text targetLanguage prevSessions =
     (let userMessage = mk_message now1 text User;
          confirmationMessage =
            mk_message (now2 + 1)
              (js ''Certainly! I will now respond in '' @ l_name targetLanguage @ js ''.'') Bot;
          s1 = updateSessionMessages activeId
                 (Updater (\<lambda>prev. filter (\<lambda>m. \<not> truthy (m_isWelcome m)) prev @ [userMessage]))
                 prevSessions;
          s2 = map (\<lambda>session. if s_id session = activeId
                                then session\<lparr> s_languageCode := l_code targetLanguage \<rparr>
                                else session) s1
      in updateSessionMessages activeId (Updater (\<lambda>prev. prev @ [confirmationMessage])) s2)"

text \<open>
  \<open>handleImageGeneration\<close> up to its awaited call.  Its first reading of the clock gives the
  placeholder's id, its second the id of the user's style message.
\<close>

definition handleImageGeneration ::
  "int \<Rightarrow> int \<Rightarrow> jsstring \<Rightarrow> jsstring \<Rightarrow> app_state \<Rightarrow> app_state \<times> effect list \<times> awaited option" where
  "handleImageGeneration now1 now2 prompt style st =
     (if \<not> truthyStr (activeSessionId st) then (st, [], None)
      else
        let finalPrompt = js ''A '' @ toLowerCase style @ js '' of: '' @ prompt;
            botMessageId = now1 + 1;
            botMessagePlaceholder = (mk_message botMessageId [] Bot)\<lparr> m_isLoading := Some True \<rparr>;
            userStyleMessage = mk_message now2 style User
        in (st\<lparr> sessions :=
                  updateSessionMessages (the (activeSessionId st))
                    (Updater (\<lambda>prev. prev @ [userStyleMessage, botMessagePlaceholder]))
                    (sessions st) \<rparr>,
            [GenerateImage finalPrompt],
            Some (ImageGenerationCall botMessageId)))"

text \<open>
  The response of \<open>generateImage\<close>, as far as the handler reads it: the block reason of the
  prompt feedback, the content of the first candidate, and the response text.  The content
  is absent (no candidate, or a candidate without content), or it is an object whose
  \<open>parts\<close> may be missing.
\<close>

record candidate_content =
  cc_parts :: "part list option"

record image_response =
  ir_blockReason :: "jsstring option"
  ir_content :: "candidate_content option"
  ir_text :: "jsstring option"

definition isInlineData :: "part \<Rightarrow> bool" where
  "isInlineData p = (case p of InlineData d m \<Rightarrow> True | TextPart t \<Rightarrow> False)"

text \<open>
  What the \<open>catch\<close> block of \<open>handleImageGeneration\<close> receives: a value raised by the service
  or by a \<open>throw\<close> of the handler, or an exception of the platform.
\<close>

datatype caught = Raised js_error | Platform platform_exception

text \<open>
  \<open>firstCandidate?.content?.parts.find(p => p.inlineData)\<close>: an absent content gives
  undefined; there is no \<open>?.\<close> before \<open>.find\<close>, so a content without parts raises a
  \<open>TypeError\<close>.
\<close>

definition imagePart :: "image_response \<Rightarrow> platform_exception + part option" where
  "imagePart response =
     (case ir_content response of
        None \<Rightarrow> Inr None
      | Some content \<Rightarrow>
          (case cc_parts content of
             None \<Rightarrow> Inl TypeError
           | Some ps \<Rightarrow> Inr (find isInlineData ps)))"

text \<open>
  What \<open>handleImageGeneration\<close> does with the response: the final message on success, or
  what is raised inside the \<open>try\<close> block.
\<close>

definition imageOutcome :: "int \<Rightarrow> image_response \<Rightarrow> caught + chat_message" where
  "imageOutcome botMessageId response =
     (if truthyStr (ir_blockReason response)
      then Inl (Raised (Error (js ''Request was blocked due to: ''
                       @ map (\<lambda>u. if u = 95 then 32 else u) (toLowerCase (the (ir_blockReason response)))
                       @ js ''.'')))
      else
        (case imagePart response of
           Inl e \<Rightarrow> Inl (Platform e)
         | Inr (Some (InlineData d mimeType)) \<Rightarrow>
             Inr ((mk_message botMessageId (js ''Here is the image I generated for you:'') Bot)
                    \<lparr> m_images := Some [js ''data:'' @ mimeType @ js '';base64,'' @ d],
                      m_isLoading := Some False \<rparr>)
         | Inr _ \<Rightarrow>
             (case ir_text response of
                Some explanation \<Rightarrow>
                  if explanation \<noteq> [] \<and> trim explanation \<noteq> []
                  then Inr ((mk_message botMessageId explanation Bot)\<lparr> m_isLoading := Some False \<rparr>)
                  else Inl (Raised (Error (js ''No image was returned from the API.'')))
              | None \<Rightarrow> Inl (Raised (Error (js ''No image was returned from the API.''))))))"

text \<open>
  The notice of the \<open>catch\<close> block.  A value that is not an \<open>Error\<close> gets the general
  notice.  An exception of the platform is an \<open>Error\<close> whose message is worded by the
  engine: it names the property that could not be read and contains none of the three
  phrases looked for, so it gets the general notice too.
\<close>

definition imageFailureText :: "caught \<Rightarrow> jsstring" where
  "imageFailureText error =
     (case error of
        Platform e \<Rightarrow> js ''Sorry, I couldn't generate the image. Please try a different prompt.''
      | Raised Thrown \<Rightarrow> js ''Sorry, I couldn't generate the image. Please try a different prompt.''
      | Raised (Error message) \<Rightarrow>
          if js_includes message (js ''safety'')
          then js ''I'm unable to create an image for that request as it appears to violate safety guidelines. Could you please try a different idea?''
          else if js_includes message (js ''No image was returned'')
          then js ''It seems I had trouble creating an image for that prompt. Could you please try a different one?''
          else if js_includes message (js ''blocked due to'')
          then js ''I'm unable to create an image for that request because it was blocked. Please try rephrasing your prompt.''
          else js ''Sorry, I couldn't generate the image. Please try a different prompt.'')"

text \<open>
  The second step of \<open>handleImageGeneration\<close>, once \<open>generateImage\<close> has returned a response or
  raised.  It writes to the session list only.
\<close>

definition handleImageGeneration_settle ::
  "jsstring \<Rightarrow> int \<Rightarrow> js_error + image_response \<Rightarrow> app_state \<Rightarrow> app_state" where
  "handleImageGeneration_settle activeId botMessageId result st =
     (case (case result of Inl e \<Rightarrow> Inl (Raised e) | Inr response \<Rightarrow> imageOutcome botMessageId response) of
        Inr finalMessage \<Rightarrow>
          st\<lparr> sessions :=
                updateSessionMessages activeId
                  (Updater (map (\<lambda>msg. if m_id msg = botMessageId then finalMessage else msg)))
                  (sessions st) \<rparr>
      | Inl error \<Rightarrow>
          st\<lparr> sessions :=
                updateSessionMessages activeId
                  (Updater (map (\<lambda>msg. if m_id msg = botMessageId
                                       then msg\<lparr> m_text := imageFailureText error,
                                                m_isLoading := Some False \<rparr>
                                       else msg)))
                  (sessions st) \<rparr>)"

text \<open>\<open>handleImageEdit\<close> up to its awaited call.\<close>

definition handleImageEdit ::
  "int \<Rightarrow> int \<Rightarrow> jsstring \<Rightarrow> uploaded_file \<Rightarrow> app_state \<Rightarrow> app_state \<times> effect list \<times> awaited option" where
  "handleImageEdit now1 now2 text file st =
     (if \<not> truthyStr (activeSessionId st) then (st, [], None)
      else
        let userMessage = (mk_message now1 (js ''(Edit Prompt: '' @ text @ js '')'') User)
                            \<lparr> m_files := Some [file] \<rparr>;
            botMessageId = now2 + 1;
            botMessagePlaceholder = (mk_message botMessageId [] Bot)\<lparr> m_isLoading := Some True \<rparr>
        in (st\<lparr> sessions :=
                  updateSessionMessages (the (activeSessionId st))
                    (Updater (appendTurn userMessage botMessagePlaceholder)) (sessions st) \<rparr>,
            [EditImage file text],
            Some (ImageEditCall botMessageId)))"

text \<open>The image-request rule: the pending prompt is recorded and the art styles are offered.\<close>

definition requestImage :: "constants \<Rightarrow> jsstring \<Rightarrow> int \<Rightarrow> int \<Rightarrow> jsstring \<Rightarrow> app_state \<Rightarrow> app_state" where
  "requestImage c activeId now1 now2 text st =
     (let userMessage = mk_message now1 text User;
          artStyleSuggestions =
            map (\<lambda>style. \<lparr> sg_text = style, sg_icon = PaletteIcon, sg_prompt = None \<rparr>) (ART_STYLES c);
          botMessage = (mk_message (now2 + 1) (js ''Sounds creative! Which art style would you like?'') Bot)
                         \<lparr> m_suggestions := Some artStyleSuggestions \<rparr>
      in st\<lparr> pendingImagePrompt := Some text,
              sessions :=
                updateSessionMessages activeId
                  (Updater (\<lambda>prev. filter (\<lambda>m. \<not> truthy (m_isWelcome m)) prev @ [userMessage, botMessage]))
                  (sessions st) \<rparr>)"

text \<open>
  The trip-plan labels: the text of the sixth suggestion of every language, lower-cased.
  A language without suggestions makes the lookup raise a \<open>TypeError\<close>.
\<close>

fun tripPlanVariants :: "language list \<Rightarrow> platform_exception + jsstring list" where
  "tripPlanVariants [] = Inr []"
| "tripPlanVariants (lang # rest) =
     (case initialSuggestions (l_code lang) of
        None \<Rightarrow> Inl TypeError
      | Some labels \<Rightarrow>
          (case tripPlanVariants rest of
             Inl e \<Rightarrow> Inl e
           | Inr variants \<Rightarrow> Inr (toLowerCase (labels ! 5) # variants)))"

text \<open>
  The canned reply: \<open>TRIP_PLAN_PROMPT[code] || TRIP_PLAN_PROMPT['en-US']\<close>; when the table has
  neither, the text is undefined, written here as the empty string.
\<close>

definition tripPlanReply :: "constants \<Rightarrow> jsstring \<Rightarrow> int \<Rightarrow> int \<Rightarrow> jsstring \<Rightarrow> chat_session \<Rightarrow> app_state \<Rightarrow> app_state" where
  "tripPlanReply c activeId now1 now2 text currentSession st =
     (let userMessage = mk_message now1 text User;
          botResponse =
            mk_message (now2 + 1)
              (case orElse (TRIP_PLAN_PROMPT c) (s_languageCode currentSession) (js ''en-US'') of
                 None \<Rightarrow> [] | Some t \<Rightarrow> t) Bot
      in st\<lparr> sessions :=
                updateSessionMessages activeId (Updater (appendTurn userMessage botResponse)) (sessions st) \<rparr>)"

text \<open>
  The default branch up to the awaited \<open>sendMessage\<close>: the prompt is the override or the
  text, wrapped with the location when it is known and with every plain-text file; the
  image files become inline parts.  Without a chat handle the \<open>try\<close> block raises at once and
  the \<open>catch\<close> block resolves the placeholder.
\<close>

definition promptFor :: "payload \<Rightarrow> location option \<Rightarrow> jsstring" where
  "promptFor pl loc =
     (let promptText0 = (if truthyStr (p_prompt pl) then the (p_prompt pl) else p_text pl);
          promptText1 =
            (case loc of
               None \<Rightarrow> promptText0
             | Some l \<Rightarrow>
                 js ''My current location is latitude: '' @ latitude l @ js '', longitude: '' @ longitude l
                 @ js ''. Please use this for any location-based queries.'' @ [10, 10]
                 @ js ''My request: '' @ [34] @ promptText0 @ [34])
      in foldl (\<lambda>promptText f.
                  js ''Context from file '' @ [34] @ f_name f @ [34] @ js '':'' @ [10] @ f_data f
                  @ [10, 10] @ js ''My question: '' @ promptText)
               promptText1
               (filter (\<lambda>f. f_mimeType f = js ''text/plain'') (p_files pl)))"

definition standardMessage ::
  "jsstring \<Rightarrow> int \<Rightarrow> int \<Rightarrow> payload \<Rightarrow> chat_session \<Rightarrow> app_state \<Rightarrow> send_result" where
  "standardMessage activeId now1 now2 pl currentSession st =
     (let text = p_text pl;
          files = p_files pl;
          userMessage = (mk_message now1 text User)\<lparr> m_files := Some files \<rparr>;
          botMessageId = now2 + 1;
          botMessagePlaceholder = (mk_message botMessageId [] Bot)\<lparr> m_isLoading := Some True \<rparr>;
          isFirstUserMessage = (filter (\<lambda>m. m_sender m = User) (s_messages currentSession) = []);
          s1 = (if isFirstUserMessage
                then map (\<lambda>s. if s_id s = activeId then s\<lparr> s_title := substring text 0 40 \<rparr> else s)
                         (sessions st)
                else sessions st);
          s2 = updateSessionMessages activeId (Updater (appendTurn userMessage botMessagePlaceholder)) s1;
          st2 = st\<lparr> userMessageCount := userMessageCount st + 1, sessions := s2 \<rparr>
      in (case chatSessionRef st of
            None \<Rightarrow>
              returned StandardMessage (st2\<lparr> sessions := failedReply activeId botMessageId s2 \<rparr>) [] None
          | Some chat \<Rightarrow>
              returned StandardMessage st2
                [SendMessage chat
                   (TextPart (promptFor pl (userLocation st))
                    # map (\<lambda>f. InlineData (f_data f) (f_mimeType f))
                          (filter (\<lambda>f. startsWith (f_mimeType f) (js ''image/'')) files))]
                (Some (StreamCall botMessageId))))"

text \<open>
  \<open>handleSendMessage\<close> up to its first awaited call.  \<open>now1\<close> and \<open>now2\<close> are the first and the
  second reading of \<open>Date.now()\<close> (every branch reads the clock twice).
\<close>

definition handleSendMessage :: "constants \<Rightarrow> int \<Rightarrow> int \<Rightarrow> payload \<Rightarrow> app_state \<Rightarrow> send_result" where
  "handleSendMessage c now1 now2 pl st0 =
     (let st = st0\<lparr> isBotSpeaking := False \<rparr>;
          text = p_text pl;
          files = p_files pl
      in
      if (trim text = [] \<and> files = []) \<or> \<not> truthyStr (activeSessionId st)
      then returned Ignored st [] None
      else
        (case find (\<lambda>s. s_id s = the (activeSessionId st)) (sessions st) of
           None \<Rightarrow> returned Ignored st [] None
         | Some currentSession \<Rightarrow>
             (case languageSwitchTarget c text currentSession of
                Some targetLanguage \<Rightarrow>
                  returned (LanguageSwitch targetLanguage)
                    (st\<lparr> sessions := switchLanguage (the (activeSessionId st)) now1 now2 text
                                         targetLanguage (sessions st) \<rparr>) [] None
              | None \<Rightarrow>
                  if truthyStr (pendingImagePrompt st) \<and> text \<in> set (ART_STYLES c)
                  then
                    (case handleImageGeneration now1 now2 (the (pendingImagePrompt st)) text st of
                       (st', effs, aw) \<Rightarrow>
                         returned (StyleSelection (the (pendingImagePrompt st)) text)
                           (st'\<lparr> pendingImagePrompt := None \<rparr>) effs aw)
                  else
                    let st1 = (if truthyStr (pendingImagePrompt st)
                               then st\<lparr> pendingImagePrompt := None \<rparr> else st)
                    in
                    if length files = 1 \<and> startsWith (f_mimeType (files ! 0)) (js ''image/'')
                       \<and> trim text \<noteq> []
                    then
                      (case handleImageEdit now1 now2 text (files ! 0) st1 of
                         (st', effs, aw) \<Rightarrow> returned (ImageEdit text (files ! 0)) st' effs aw)
                    else if test True imageGenRegex (trim text)
                            \<and> \<not> test True imageGenBlockRegex (trim text) \<and> files = []
                    then
                      returned ImageRequest
                        (requestImage c (the (activeSessionId st)) now1 now2 text st1) [] None
                    else
                      (case tripPlanVariants (LANGUAGES c) of
                         Inl e \<Rightarrow>
                           \<lparr> r_state = st1, r_effects = [SpeechCancel], r_action = Crashed,
                             r_awaited = None, r_raised = Some e \<rparr>
                       | Inr variants \<Rightarrow>
                           if trim (toLowerCase text) \<in> set variants \<and> files = []
                           then
                             returned TripPlan
                               (tripPlanReply c (the (activeSessionId st)) now1 now2 text
                                  currentSession st1) [] None
                           else
                             standardMessage (the (activeSessionId st)) now1 now2 pl currentSession st1))))"

section \<open>The router's contract\<close>

text \<open>
  A submission is accepted when it passes the two guards at the head of the handler: the
  text is not blank or a file is attached, there is an active session id, and a session of
  the list has that id (\<open>currentSession\<close> is the first such session).
\<close>

definition activeIn :: "app_state \<Rightarrow> jsstring \<Rightarrow> chat_session \<Rightarrow> bool" where
  "activeIn st activeId currentSession =
     (activeSessionId st = Some activeId \<and> activeId \<noteq> [] \<and>
      find (\<lambda>s. s_id s = activeId) (sessions st) = Some currentSession)"

definition accepted :: "payload \<Rightarrow> app_state \<Rightarrow> jsstring \<Rightarrow> chat_session \<Rightarrow> bool" where
  "accepted pl st activeId currentSession =
     ((trim (p_text pl) \<noteq> [] \<or> p_files pl \<noteq> []) \<and> activeIn st activeId currentSession)"

text \<open>
  The router as the specification words it: the rules in their fixed priority order, each
  with the action it decides; the first rule whose condition holds wins, and the last rule
  (the default) always holds.
\<close>

definition priorityRules :: "constants \<Rightarrow> payload \<Rightarrow> app_state \<Rightarrow> chat_session \<Rightarrow> (bool \<times> action) list" where
  "priorityRules c pl st currentSession =
     (let text = p_text pl; files = p_files pl in
      [(languageSwitchTarget c text currentSession \<noteq> None,
          LanguageSwitch (the (languageSwitchTarget c text currentSession))),
       (truthyStr (pendingImagePrompt st) \<and> text \<in> set (ART_STYLES c),
          StyleSelection (the (pendingImagePrompt st)) text),
       (length files = 1 \<and> startsWith (f_mimeType (files ! 0)) (js ''image/'') \<and> trim text \<noteq> [],
          ImageEdit text (files ! 0)),
       (test True imageGenRegex (trim text) \<and> \<not> test True imageGenBlockRegex (trim text) \<and> files = [],
          ImageRequest),
       ((case tripPlanVariants (LANGUAGES c) of
           Inl e \<Rightarrow> False
         | Inr variants \<Rightarrow> trim (toLowerCase text) \<in> set variants) \<and> files = [],
          TripPlan),
       (True, StandardMessage)])"

definition route :: "constants \<Rightarrow> payload \<Rightarrow> app_state \<Rightarrow> chat_session \<Rightarrow> action" where
  "route c pl st currentSession =
     (case find fst (priorityRules c pl st currentSession) of
        Some (matched, a) \<Rightarrow> a
      | None \<Rightarrow> StandardMessage)"

text \<open>The messages of a session list whose loading flag is set.\<close>

definition loadingMessages :: "chat_session list \<Rightarrow> chat_message list" where
  "loadingMessages ss = concat (map (\<lambda>s. filter (\<lambda>m. m_isLoading m = Some True) (s_messages s)) ss)"

text \<open>
  An action is quiet when it calls no backend, awaits nothing and leaves no loading message
  that was not there before.  An action adds a placeholder when, in every session with the
  active id, the last message afterwards is a fresh loading message with the given id.
\<close>

definition quietAction :: "app_state \<Rightarrow> send_result \<Rightarrow> bool" where
  "quietAction st res =
     (backendCalls (r_effects res) = [] \<and> r_awaited res = None \<and>
      set (loadingMessages (sessions (r_state res))) \<subseteq> set (loadingMessages (sessions st)))"

definition placeholderAdded :: "app_state \<Rightarrow> jsstring \<Rightarrow> int \<Rightarrow> send_result \<Rightarrow> bool" where
  "placeholderAdded st activeId botMessageId res =
     (\<forall>i < length (sessions st).
        s_id (sessions st ! i) = activeId \<longrightarrow>
        last (s_messages (sessions (r_state res) ! i)) =
          (mk_message botMessageId [] Bot)\<lparr> m_isLoading := Some True \<rparr>)"

text \<open>\<open>if (pendingImagePrompt) setPendingImagePrompt(null)\<close>\<close>

definition dropPending :: "app_state \<Rightarrow> app_state" where
  "dropPending st = (if truthyStr (pendingImagePrompt st) then st\<lparr> pendingImagePrompt := None \<rparr> else st)"

text \<open>
  Sample constants for the concrete runs below.  The constants module is not among the
  sources; the sample has the language entry that the specification names (code hi-IN, name
  Hindi), an English entry for the code en-US, which the source uses as the default, and the
  art style that the specification names (Watercolor).  Native names play no role and
  repeat the name.
\<close>

definition sampleConstants :: constants where
  "sampleConstants =
     \<lparr> LANGUAGES =
         [\<lparr> l_code = js ''en-US'', l_name = js ''English'', l_nativeName = js ''English'' \<rparr>,
          \<lparr> l_code = js ''hi-IN'', l_name = js ''Hindi'', l_nativeName = js ''Hindi'' \<rparr>],
       ART_STYLES = [js ''Watercolor''],
       TRIP_PLAN_PROMPT = (\<lambda>code. None) \<rparr>"

text \<open>One English session that holds a user message, with the given pending image prompt.\<close>

definition sampleState :: "jsstring option \<Rightarrow> app_state" where
  "sampleState pending =
     \<lparr> sessions = [\<lparr> s_id = js ''s1'', s_title = js ''hello'',
                      s_messages = [mk_message 1 (js ''hello'') User],
                      s_languageCode = js ''en-US'' \<rparr>],
       activeSessionId = Some (js ''s1''),
       pendingImagePrompt = pending,
       isBotSpeaking = False,
       userLocation = None,
       userMessageCount = 1,
       chatSessionRef = Some 0 \<rparr>"

definition say :: "string \<Rightarrow> payload" where
  "say t = \<lparr> p_text = js t, p_files = [], p_prompt = None \<rparr>"

section \<open>Theorems\<close>

subsection \<open>updateSessionMessages\<close>

text \<open>
  C10.  \<open>updateSessionMessages\<close> keeps the length and the order of the session list.  The
  session at every position keeps its id, title and language code; a session whose id
  differs from the given one is unchanged; a session with the given id gets the updated
  message list and nothing else changes in it.  When no session has the given id the list is
  returned unchanged.
\<close>

theorem updateSessionMessages_frame:
  "length (updateSessionMessages sid upd ss) = length ss \<and>
   (\<forall>i < length ss.
      s_id (updateSessionMessages sid upd ss ! i) = s_id (ss ! i) \<and>
      s_title (updateSessionMessages sid upd ss ! i) = s_title (ss ! i) \<and>
      s_languageCode (updateSessionMessages sid upd ss ! i) = s_languageCode (ss ! i) \<and>
      (s_id (ss ! i) \<noteq> sid \<longrightarrow> updateSessionMessages sid upd ss ! i = ss ! i) \<and>
      (s_id (ss ! i) = sid \<longrightarrow>
         updateSessionMessages sid upd ss ! i =
           (ss ! i)\<lparr> s_messages := applyUpdate upd (s_messages (ss ! i)) \<rparr>)) \<and>
   (sid \<notin> s_id ` set ss \<longrightarrow> updateSessionMessages sid upd ss = ss)"
proof -
  have unchanged: "updateSessionMessages sid upd ss = ss" if "sid \<notin> s_id ` set ss"
    using that by (induction ss) (auto simp: updateSessionMessages_def)
  show ?thesis
    using unchanged by (simp add: updateSessionMessages_def)
qed

theorem updateSessionMessages_frame_witness:
  "updateSessionMessages (js ''b'') (Updater (\<lambda>ms. ms @ [mk_message 7 (js ''hi'') User]))
     [\<lparr> s_id = js ''a'', s_title = js ''A'', s_messages = [], s_languageCode = js ''en-US'' \<rparr>,
      \<lparr> s_id = js ''b'', s_title = js ''B'', s_messages = [], s_languageCode = js ''hi-IN'' \<rparr>]
   = [\<lparr> s_id = js ''a'', s_title = js ''A'', s_messages = [], s_languageCode = js ''en-US'' \<rparr>,
      \<lparr> s_id = js ''b'', s_title = js ''B'', s_messages = [mk_message 7 (js ''hi'') User],
        s_languageCode = js ''hi-IN'' \<rparr>]
   \<and> updateSessionMessages (js ''c'') (NewList [])
     [\<lparr> s_id = js ''a'', s_title = js ''A'', s_messages = [], s_languageCode = js ''en-US'' \<rparr>]
   = [\<lparr> s_id = js ''a'', s_title = js ''A'', s_messages = [], s_languageCode = js ''en-US'' \<rparr>]"
  using updateSessionMessages_frame
    [of "js ''b''" "Updater (\<lambda>ms. ms @ [mk_message 7 (js ''hi'') User])"
        "[\<lparr> s_id = js ''a'', s_title = js ''A'', s_messages = [], s_languageCode = js ''en-US'' \<rparr>,
          \<lparr> s_id = js ''b'', s_title = js ''B'', s_messages = [], s_languageCode = js ''hi-IN'' \<rparr>]"]
    updateSessionMessages_frame
    [of "js ''c''" "NewList []"
        "[\<lparr> s_id = js ''a'', s_title = js ''A'', s_messages = [], s_languageCode = js ''en-US'' \<rparr>]"]
  by (simp add: updateSessionMessages_def applyUpdate_def js_def)

subsection \<open>The base64 codec\<close>

lemma b64index_b64char: "n < 64 \<Longrightarrow> b64index (b64char n) = Some n"
  by (auto simp: b64index_def b64char_def)

lemma b64char_not_pad: "b64char n \<noteq> 61"
  by (auto simp: b64char_def)

lemma b64char_not_ws: "\<not> asciiWhitespace (b64char n)"
  by (auto simp: b64char_def asciiWhitespace_def)

lemma b64encode_sextets: "b64encode xs = map b64char (sextets xs) @ padding xs"
  by (induction xs rule: b64encode.induct) simp_all

lemma padding_cases: "padding xs = [] \<or> padding xs = [61] \<or> padding xs = [61, 61]"
  by (induction xs rule: padding.induct) simp_all

lemma length_b64encode: "length (b64encode xs) mod 4 = 0"
  by (induction xs rule: b64encode.induct) simp_all

lemma set_padding: "u \<in> set (padding xs) \<Longrightarrow> u = 61"
  by (induction xs rule: padding.induct) auto

lemma filter_b64encode: "filter (\<lambda>u. \<not> asciiWhitespace u) (b64encode xs) = b64encode xs"
proof -
  have "\<not> asciiWhitespace u" if "u \<in> set (padding xs)" for u
    using set_padding[OF that] by (simp add: asciiWhitespace_def)
  then show ?thesis
    by (auto simp: b64encode_sextets filter_id_conv b64char_not_ws)
qed

lemma sextets_bound: "\<forall>x \<in> set xs. x < 256 \<Longrightarrow> \<forall>s \<in> set (sextets xs). s < 64"
proof (induction xs rule: sextets.induct)
  case (1 a b c rest)
  then have "a < 256" "b < 256" "c < 256" by simp_all
  then have "a div 4 < 64" "(a mod 4) * 16 + b div 16 < 64" "(b mod 16) * 4 + c div 64 < 64" "c mod 64 < 64"
    by arith+
  with 1 show ?case by simp
next
  case (2 a b)
  then have "a < 256" "b < 256" by simp_all
  then have "a div 4 < 64" "(a mod 4) * 16 + b div 16 < 64" "(b mod 16) * 4 < 64"
    by arith+
  then show ?case by simp
next
  case (3 a)
  then have "a < 256" by simp
  then have "a div 4 < 64" "(a mod 4) * 16 < 64" by arith+
  then show ?case by simp
qed simp

lemma length_sextets: "length (sextets xs) mod 4 \<noteq> 1"
  by (induction xs rule: sextets.induct) simp_all

lemma div_mult_add: "r < k \<Longrightarrow> (q * k + r) div k = (q::nat)"
  by simp

lemma mod_mult_add: "r < k \<Longrightarrow> (q * k + r) mod k = (r::nat)"
  by simp

lemma join_first: "b < 256 \<Longrightarrow> a div 4 * 4 + (a mod 4 * 16 + b div 16) div 16 = (a::nat)"
proof -
  assume "b < 256"
  then have "b div 16 < 16" by simp
  then have "(a mod 4 * 16 + b div 16) div 16 = a mod 4" by (rule div_mult_add)
  then show ?thesis by simp
qed

lemma join_second:
  "b < 256 \<Longrightarrow> c < 256 \<Longrightarrow>
   (a mod 4 * 16 + b div 16) mod 16 * 16 + (b mod 16 * 4 + c div 64) div 4 = (b::nat)"
proof -
  assume "b < 256" "c < 256"
  then have "b div 16 < 16" "c div 64 < 4" by simp_all
  then have "(a mod 4 * 16 + b div 16) mod 16 = b div 16" "(b mod 16 * 4 + c div 64) div 4 = b mod 16"
    by (simp_all only: mod_mult_add div_mult_add)
  then show ?thesis by simp
qed

lemma join_third: "c < 256 \<Longrightarrow> (b mod 16 * 4 + c div 64) mod 4 * 64 + c mod 64 = (c::nat)"
proof -
  assume "c < 256"
  then have "c div 64 < 4" by simp
  then have "(b mod 16 * 4 + c div 64) mod 4 = c div 64" by (rule mod_mult_add)
  then show ?thesis by simp
qed

lemma b64decode_sextets: "\<forall>x \<in> set xs. x < 256 \<Longrightarrow> b64decode (sextets xs) = xs"
proof (induction xs rule: sextets.induct)
  case (1 a b c rest)
  then have "a < 256" "b < 256" "c < 256" by simp_all
  then show ?case
    using 1 join_first[of b a] join_second[of b c a] join_third[of c b] by simp
next
  case (2 a b)
  then have "a < 256" "b < 256" by simp_all
  then show ?case
    using join_first[of b a] join_second[of b 0 a] by simp
next
  case (3 a)
  show ?case using join_first[of 0 a] by simp
qed simp

lemma stripPadding_b64encode: "stripPadding (b64encode xs) = map b64char (sextets xs)"
proof -
  let ?m = "map b64char (sextets xs)"
  have len: "length (?m @ padding xs) mod 4 = 0"
    using length_b64encode[of xs] by (simp add: b64encode_sextets)
  have nopad: "\<forall>u \<in> set ?m. u \<noteq> 61"
    by (auto simp: b64char_not_pad)
  consider "padding xs = []" | "padding xs = [61]" | "padding xs = [61, 61]"
    using padding_cases by blast
  then have "stripPadding (?m @ padding xs) = ?m"
  proof cases
    case 1
    show ?thesis
    proof (cases "?m = []")
      case True
      with 1 show ?thesis by (simp add: stripPadding_def)
    next
      case False
      then have l: "last ?m \<noteq> 61" using nopad last_in_set by blast
      have "?m ! (length ?m - 1) \<noteq> 61" using l False by (simp add: last_conv_nth)
      with 1 len show ?thesis by (simp add: stripPadding_def)
    qed
  next
    case 2
    have "?m \<noteq> []" using len 2 by auto
    then have l: "last ?m \<noteq> 61" using nopad last_in_set by blast
    have "?m ! (length ?m - 1) \<noteq> 61" using l \<open>?m \<noteq> []\<close> by (simp add: last_conv_nth)
    moreover have "(?m @ [61]) ! (length ?m - 1) = ?m ! (length ?m - 1)"
      using \<open>?m \<noteq> []\<close> by (simp add: nth_append)
    ultimately show ?thesis using 2 len by (simp add: stripPadding_def nth_append)
  next
    case 3
    have "(?m @ [61, 61]) ! (length ?m) = 61" "(?m @ [61, 61]) ! Suc (length ?m) = 61"
      by (simp_all add: nth_append)
    with 3 len show ?thesis by (simp add: stripPadding_def butlast_append)
  qed
  then show ?thesis by (simp add: b64encode_sextets)
qed

lemma atob_b64encode:
  assumes "\<forall>x \<in> set xs. x < 256"
  shows "atob (b64encode xs) = Inr xs"
proof -
  have idx: "map (\<lambda>u. the (b64index u)) (map b64char (sextets xs)) = sextets xs"
    using sextets_bound[OF assms] by (simp add: map_idI b64index_b64char)
  have ok: "\<not> (list_ex (\<lambda>u. b64index u = None) (map b64char (sextets xs)))"
    using sextets_bound[OF assms] by (auto simp: b64index_b64char list_ex_iff)
  show ?thesis
    unfolding atob_def Let_def filter_b64encode stripPadding_b64encode
    using ok idx length_sextets[of xs] b64decode_sextets[OF assms]
    by simp
qed

lemma unat_byte_bound: "\<forall>x \<in> set (map unat (bytes :: 8 word list)). x < 256"
proof
  fix x assume "x \<in> set (map unat bytes)"
  then obtain w :: "8 word" where "x = unat w" by auto
  moreover have "unat w < 2 ^ 8" using unsigned_less[of w] by simp
  ultimately show "x < 256" by simp
qed

text \<open>
  C9.  The base64 codec of the live-audio view round-trips.  For every byte array \<open>b\<close>,
  \<open>encode b\<close> returns a string and \<open>decode\<close> of that string returns \<open>b\<close>; and every string
  \<open>s\<close> that \<open>encode\<close> returns for some byte array decodes to a byte array whose encoding
  is \<open>s\<close> again.
\<close>

theorem codec_roundtrip:
  "(\<exists>s. encode b = Inr s \<and> decode s = Inr b) \<and>
   (\<forall>s. (\<exists>b'. encode b' = Inr s) \<longrightarrow> (\<exists>c. decode s = Inr c \<and> encode c = Inr s))"
proof -
  have enc: "encode x = Inr (b64encode (map unat x))" for x
    using unat_byte_bound[of x] by (auto simp: encode_def btoa_def list_ex_iff)
  have dec: "decode (b64encode (map unat x)) = Inr x" for x
    using atob_b64encode[OF unat_byte_bound[of x]] by (simp add: decode_def comp_def)
  show ?thesis using enc dec by auto
qed

theorem codec_roundtrip_witness:
  "encode [0x48, 0x69] = Inr (js ''SGk='') \<and> decode (js ''SGk='') = Inr [0x48, 0x69]"
  using codec_roundtrip[of "[0x48, 0x69]"]
  by (simp add: encode_def btoa_def b64char_def js_def)

subsection \<open>Playback scheduling and interruption\<close>

lemma decode_six_zero_bytes: "decode (js ''AAAAAAAA'') = Inr [0, 0, 0, 0, 0, 0]"
  by (simp add: decode_def atob_def js_def stripPadding_def asciiWhitespace_def b64index_def)

lemma decode_two_zero_bytes: "decode (js ''AAA='') = Inr [0, 0]"
  by (simp add: decode_def atob_def js_def stripPadding_def asciiWhitespace_def b64index_def)

lemma handleInterrupted_quiet:
  "interrupted m \<noteq> Some True \<Longrightarrow>
   handleInterrupted m st effs = \<lparr> o_state = st, o_effects = effs, o_raised = None \<rparr>"
  by (simp add: handleInterrupted_def)

lemma onmessage_clip:
  assumes "clipOf m = Some b"
  shows "onmessage st t m =
           handleInterrupted m
             (st\<lparr> nextStartTimeRef := max (nextStartTimeRef st) t + duration b,
                  sourcesRef := sourcesRef st @ [createdNodes st],
                  createdNodes := Suc (createdNodes st) \<rparr>)
             [Start (createdNodes st) (max (nextStartTimeRef st) t) b]"
  using assms
  by (auto simp: onmessage_def clipOf_def Let_def split: option.splits sum.splits if_splits)


lemma onmessage_raises_iff:
  "o_raised (onmessage st t m) = None \<longleftrightarrow> noAudio m \<or> clipOf m \<noteq> None"
  by (auto simp: onmessage_def noAudio_def clipOf_def handleInterrupted_def Let_def
           split: sum.splits option.splits if_splits)

lemma inlineAudio_audioMessage [simp]: "inlineAudio (audioMessage audio flag) = Inr (Some audio)"
  by (simp add: inlineAudio_def audioMessage_def)

lemma inlineAudio_signalMessage [simp]: "inlineAudio (signalMessage flag) = Inr None"
  by (simp add: inlineAudio_def signalMessage_def)

lemma interrupted_messages [simp]:
  "interrupted (audioMessage audio flag) = flag" "interrupted (signalMessage flag) = flag"
  by (simp_all add: interrupted_def audioMessage_def signalMessage_def)

lemma clip_six_zero_bytes:
  "clipOf (audioMessage (js ''AAAAAAAA'') flag) =
     Some \<lparr> ab_sampleRate = 24000, ab_length = 3, ab_channelData = [[0, 0, 0]] \<rparr>"
  by (simp add: clipOf_def decode_six_zero_bytes)
     (simp add: js_def decodeAudioData_def newInt16Array_def upt_rec word_cat_eq)

lemma clip_two_zero_bytes:
  "clipOf (audioMessage (js ''AAA='') flag) =
     Some \<lparr> ab_sampleRate = 24000, ab_length = 1, ab_channelData = [[0]] \<rparr>"
  by (simp add: clipOf_def decode_two_zero_bytes)
     (simp add: js_def decodeAudioData_def newInt16Array_def upt_rec word_cat_eq)



lemma deliver_Cons:
  "fst (deliver st ((t, m) # rest)) = fst (deliver (o_state (onmessage st t m)) rest)"
  "snd (deliver st ((t, m) # rest)) =
     o_effects (onmessage st t m) @ snd (deliver (o_state (onmessage st t m)) rest)"
  by (simp_all add: Let_def split: prod.splits)

lemma deliver_clips:
  assumes "\<forall>a \<in> set arrivals. clipOf (snd a) \<noteq> None \<and> interrupted (snd a) \<noteq> Some True"
  shows "startTimes (snd (deliver st arrivals)) = spec_schedule (nextStartTimeRef st) (map arrival arrivals)"
  using assms
proof (induction arrivals arbitrary: st)
  case Nil
  then show ?case by simp
next
  case (Cons a rest)
  obtain t m where a: "a = (t, m)" by (cases a)
  from Cons.prems a obtain b where b: "clipOf m = Some b" and q: "interrupted m \<noteq> Some True"
    by auto
  have step: "onmessage st t m =
       \<lparr> o_state = st\<lparr> nextStartTimeRef := max (nextStartTimeRef st) t + duration b,
                  sourcesRef := sourcesRef st @ [createdNodes st], createdNodes := Suc (createdNodes st) \<rparr>,
         o_effects = [Start (createdNodes st) (max (nextStartTimeRef st) t) b], o_raised = None \<rparr>"
    by (simp add: onmessage_clip[OF b] handleInterrupted_quiet[OF q])
  have rest: "\<forall>a \<in> set rest. clipOf (snd a) \<noteq> None \<and> interrupted (snd a) \<noteq> Some True"
    using Cons.prems by simp
  show ?case
    using Cons.IH[OF rest] by (simp add: a deliver_Cons step b arrival_def del: deliver.simps)
qed

lemma length_spec_schedule: "length (spec_schedule n xs) = length xs"
  by (induction xs arbitrary: n) auto

lemma spec_schedule_step:
  "Suc k < length xs \<Longrightarrow>
   spec_schedule n xs ! Suc k = max (spec_schedule n xs ! k + snd (xs ! k)) (fst (xs ! Suc k))"
proof (induction xs arbitrary: n k)
  case Nil
  then show ?case by simp
next
  case (Cons x xs)
  obtain c d where x: "x = (c, d)" by (cases x)
  show ?case
  proof (cases k)
    case 0
    with Cons.prems obtain y ys where "xs = y # ys" by (cases xs) auto
    then show ?thesis using 0 x by (cases y) simp
  next
    case (Suc j)
    with Cons.prems have "Suc j < length xs" by simp
    from Cons.IH[OF this] show ?thesis using Suc x by simp
  qed
qed

text \<open>
  C7.  Let audio clips arrive in order, each in a message that carries a decodable clip and
  no interruption signal, and let \<open>starts\<close> be the times passed to \<open>source.start\<close>.  Every
  message starts one clip, the first at the maximum of the next scheduled start time and
  the playback clock.  For consecutive clips \<open>k\<close> and \<open>k + 1\<close>, with \<open>d\<close> the duration of
  clip \<open>k\<close>: clip \<open>k + 1\<close> starts no earlier than the start of clip \<open>k\<close> plus \<open>d\<close>; its
  start is the maximum of that sum and the playback clock at its arrival; and when it
  arrives while the clock has not passed that sum (arrival faster than playback) it
  starts exactly there, with no gap.
\<close>

theorem playback_schedule:
  assumes "\<forall>a \<in> set arrivals. clipOf (snd a) \<noteq> None \<and> interrupted (snd a) \<noteq> Some True"
      and "starts = startTimes (snd (deliver st arrivals))"
      and "Suc k < length arrivals"
      and "d = duration (the (clipOf (snd (arrivals ! k))))"
  shows "length starts = length arrivals \<and>
         starts ! 0 = max (nextStartTimeRef st) (fst (arrivals ! 0)) \<and>
         starts ! Suc k \<ge> starts ! k + d \<and>
         starts ! Suc k = max (starts ! k + d) (fst (arrivals ! Suc k)) \<and>
         (fst (arrivals ! Suc k) \<le> starts ! k + d \<longrightarrow> starts ! Suc k = starts ! k + d)"
proof -
  have s: "starts = spec_schedule (nextStartTimeRef st) (map arrival arrivals)"
    using deliver_clips[OF assms(1)] assms(2) by simp
  have k: "Suc k < length (map arrival arrivals)" using assms(3) by simp
  have "starts ! Suc k = max (starts ! k + d) (fst (arrivals ! Suc k))"
    using spec_schedule_step[OF k, of "nextStartTimeRef st"] assms(3,4)
    by (simp add: s arrival_def)
  moreover have "starts ! 0 = max (nextStartTimeRef st) (fst (arrivals ! 0))"
  proof (cases arrivals)
    case Nil
    with assms(3) show ?thesis by simp
  next
    case (Cons a rest)
    then show ?thesis by (cases a) (simp add: s arrival_def)
  qed
  ultimately show ?thesis by (simp add: s length_spec_schedule)
qed

theorem playback_schedule_witness:
  "clipOf (audioMessage (js ''AAAAAAAA'') None) \<noteq> None \<and>
   clipOf (audioMessage (js ''AAA='') None) \<noteq> None \<and>
   startTimes (snd (deliver \<lparr> sourcesRef = [], nextStartTimeRef = 0, createdNodes = 0 \<rparr>
      [(1 / 2, audioMessage (js ''AAAAAAAA'') None),
       (1 / 4, audioMessage (js ''AAA='') None)])) ! Suc 0
     = 1 / 2 + 1 / 8000"
proof -
  let ?a = "audioMessage (js ''AAAAAAAA'') None"
  let ?b = "audioMessage (js ''AAA='') None"
  let ?st = "\<lparr> sourcesRef = [], nextStartTimeRef = 0, createdNodes = 0 \<rparr>"
  note a = clip_six_zero_bytes[of None] and b = clip_two_zero_bytes[of None]
  have h: "\<forall>x \<in> set [(1 / 2, ?a), (1 / 4, ?b)]. clipOf (snd x) \<noteq> None \<and> interrupted (snd x) \<noteq> Some True"
    using a b by simp
  have first: "startTimes (snd (deliver ?st [(1 / 2, ?a), (1 / 4, ?b)])) ! 0 = 1 / 2"
    by (simp add: onmessage_clip[OF a] onmessage_clip[OF b] handleInterrupted_def Let_def)
  from playback_schedule[OF h refl, of 0 _ ?st, OF _ refl]
  have "startTimes (snd (deliver ?st [(1 / 2, ?a), (1 / 4, ?b)])) ! Suc 0
          = max (startTimes (snd (deliver ?st [(1 / 2, ?a), (1 / 4, ?b)])) ! 0
                 + duration (the (clipOf ?a))) (1 / 4)"
    by simp
  then show ?thesis
    using a b first by (simp add: duration_def)
qed





subsection \<open>Video generation\<close>

lemma updateSessionMessages_nth:
  "i < length ss \<Longrightarrow>
   updateSessionMessages sid upd ss ! i =
     (if s_id (ss ! i) = sid then (ss ! i)\<lparr> s_messages := applyUpdate upd (s_messages (ss ! i)) \<rparr>
      else ss ! i)"
  by (simp add: updateSessionMessages_def)

lemma length_updateSessionMessages [simp]:
  "length (updateSessionMessages sid upd ss) = length ss"
  by (simp add: updateSessionMessages_def)

lemma last_appendTurn [simp]: "last (appendTurn u b prev) = b"
  by (simp add: appendTurn_def)

lemma appendTurn_not_Nil [simp]: "appendTurn u b prev \<noteq> []"
  by (simp add: appendTurn_def)

lemma start_placeholder:
  assumes "i < length ss" "s_id (ss ! i) = sid"
  shows "last (s_messages (handleVideoGeneration_start sid now1 now2 file prompt ss ! i)) =
           (mk_message (now2 + 1) [] Bot)\<lparr> m_isLoading := Some True, m_videoState := Some Generating \<rparr>"
    and "s_messages (handleVideoGeneration_start sid now1 now2 file prompt ss ! i) \<noteq> []"
  using assms
  by (simp_all add: handleVideoGeneration_start_def Let_def updateSessionMessages_nth applyUpdate_def)

lemma length_start [simp]:
  "length (handleVideoGeneration_start sid now1 now2 file prompt ss) = length ss"
  by (simp add: handleVideoGeneration_start_def Let_def)

lemma s_id_start:
  "i < length ss \<Longrightarrow> s_id (handleVideoGeneration_start sid now1 now2 file prompt ss ! i) = s_id (ss ! i)"
  by (simp add: handleVideoGeneration_start_def Let_def updateSessionMessages_nth)

lemma settle_last:
  assumes "i < length ss" "s_id (ss ! i) = sid" "s_messages (ss ! i) \<noteq> []"
      and "m_id (last (s_messages (ss ! i))) = bid"
  shows "last (s_messages (handleVideoGeneration_settle sid bid result ss ! i)) =
          (case result of
             Inr videoUri \<Rightarrow> (mk_message bid (js ''Here is the generated video:'') Bot)
                 \<lparr> m_isLoading := Some False, m_videoState := Some Done, m_videoUrl := Some videoUri \<rparr>
           | Inl error \<Rightarrow> (last (s_messages (ss ! i)))
                 \<lparr> m_text := js ''Sorry, I couldn't generate the video. Error: '' @ errorMessage error,
                   m_isLoading := Some False, m_videoState := Some Failed \<rparr>)"
  using assms
  by (cases result)
     (simp_all add: handleVideoGeneration_settle_def Let_def updateSessionMessages_nth applyUpdate_def
        last_map)

lemma settle_message:
  assumes "j < length ss" "k < length (s_messages (ss ! j))"
  shows "s_messages (handleVideoGeneration_settle sid bid result ss ! j) ! k = s_messages (ss ! j) ! k \<or>
         (s_id (ss ! j) = sid \<and> m_id (s_messages (ss ! j) ! k) = bid \<and>
          m_videoState (s_messages (handleVideoGeneration_settle sid bid result ss ! j) ! k)
            = Some (resolvedState result))"
  using assms
  by (cases result)
     (simp_all add: handleVideoGeneration_settle_def Let_def updateSessionMessages_nth applyUpdate_def
        resolvedState_def mk_message_def)

lemma generateVideo_no_link:
  assumes "vb_generateVideos backend = Inr operation0"
      and "pollLoop operation0 (vb_getVideosOperation backend) = Some (Inr operation)"
      and "\<not> truthyStr (op_uri operation)"
  shows "generateVideo apiKey backend file prompt aspectRatio =
           Some (Inl (Error (js ''Video generation completed but no download link was found.'')))"
  using assms by (simp add: generateVideo_def)

text \<open>
  C4.  A video request in a session of the list, with an active session id.  The handler
  leaves at most two states of the session list.  In the first the placeholder (the last
  message of the session, with id \<open>now2 + 1\<close>) has \<open>videoState = generating\<close>.  While the job is
  pending there is no other state.  When \<open>generateVideo\<close> returns a URI the second state has
  the placeholder at \<open>done\<close> with that URL; when it raises, the second state has it at
  \<open>failed\<close>, with the text made from the raised error's message.  When the submitted job is
  seen done and the completed operation has no URI, \<open>generateVideo\<close> raises the error "Video
  generation completed but no download link was found.", so the placeholder ends
  \<open>failed\<close>.  And the resolving step, applied to any session list, leaves every message as
  it is or sets its \<open>videoState\<close> to \<open>done\<close> (on success) or \<open>failed\<close> (on error): no message is
  ever set to \<open>generating\<close> by it.
\<close>

theorem video_lifecycle:
  assumes "activeId = Some sid" and "sid \<noteq> []"
      and "i < length ss" and "s_id (ss ! i) = sid"
      and "trace = handleVideoGeneration activeId now1 now2 apiKey backend file prompt aspectRatio ss"
      and "outcome = generateVideo apiKey backend file prompt aspectRatio"
  shows "m_id (last (s_messages (trace ! 0 ! i))) = now2 + 1 \<and>
         m_videoState (last (s_messages (trace ! 0 ! i))) = Some Generating \<and>
         (outcome = None \<longrightarrow> length trace = 1) \<and>
         (\<forall>uri. outcome = Some (Inr uri) \<longrightarrow>
            length trace = 2 \<and>
            m_id (last (s_messages (trace ! 1 ! i))) = now2 + 1 \<and>
            m_videoState (last (s_messages (trace ! 1 ! i))) = Some Done \<and>
            m_videoUrl (last (s_messages (trace ! 1 ! i))) = Some uri \<and>
            m_isLoading (last (s_messages (trace ! 1 ! i))) = Some False) \<and>
         (\<forall>e. outcome = Some (Inl e) \<longrightarrow>
            length trace = 2 \<and>
            m_id (last (s_messages (trace ! 1 ! i))) = now2 + 1 \<and>
            m_videoState (last (s_messages (trace ! 1 ! i))) = Some Failed \<and>
            m_text (last (s_messages (trace ! 1 ! i))) =
              js ''Sorry, I couldn't generate the video. Error: '' @ errorMessage e \<and>
            m_isLoading (last (s_messages (trace ! 1 ! i))) = Some False) \<and>
         (\<forall>operation0 operation.
            vb_generateVideos backend = Inr operation0 \<and>
            pollLoop operation0 (vb_getVideosOperation backend) = Some (Inr operation) \<and>
            \<not> truthyStr (op_uri operation) \<longrightarrow>
            outcome = Some (Inl (Error (js ''Video generation completed but no download link was found.'')))) \<and>
         (\<forall>result ss' j k.
            j < length ss' \<and> k < length (s_messages (ss' ! j)) \<longrightarrow>
            s_messages (handleVideoGeneration_settle sid (now2 + 1) result ss' ! j) ! k
              = s_messages (ss' ! j) ! k \<or>
            (s_id (ss' ! j) = sid \<and> m_id (s_messages (ss' ! j) ! k) = now2 + 1 \<and>
             m_videoState (s_messages (handleVideoGeneration_settle sid (now2 + 1) result ss' ! j) ! k)
               = Some (resolvedState result)))"
proof -
  let ?started = "handleVideoGeneration_start sid now1 now2 file prompt ss"
  have tr: "trace = (case outcome of None \<Rightarrow> [?started]
              | Some result \<Rightarrow> [?started, handleVideoGeneration_settle sid (now2 + 1) result ?started])"
    using assms(1,2,5,6) by (simp add: handleVideoGeneration_def truthyStr_def Let_def)
  have t0: "trace ! 0 = ?started"
    using tr by (simp split: option.splits)
  have ph: "last (s_messages (?started ! i)) =
      (mk_message (now2 + 1) [] Bot)\<lparr> m_isLoading := Some True, m_videoState := Some Generating \<rparr>"
    and ne: "s_messages (?started ! i) \<noteq> []"
    using start_placeholder[OF assms(3,4)] by simp_all
  have phid: "m_id (last (s_messages (?started ! i))) = now2 + 1"
    by (simp add: ph mk_message_def)
  have i': "i < length ?started" using assms(3) by simp
  have sid': "s_id (?started ! i) = sid" using s_id_start[OF assms(3)] assms(4) by simp
  have fin: "last (s_messages (handleVideoGeneration_settle sid (now2 + 1) result ?started ! i)) =
          (case result of
             Inr videoUri \<Rightarrow> (mk_message (now2 + 1) (js ''Here is the generated video:'') Bot)
                 \<lparr> m_isLoading := Some False, m_videoState := Some Done, m_videoUrl := Some videoUri \<rparr>
           | Inl error \<Rightarrow> (last (s_messages (?started ! i)))
                 \<lparr> m_text := js ''Sorry, I couldn't generate the video. Error: '' @ errorMessage error,
                   m_isLoading := Some False, m_videoState := Some Failed \<rparr>)" for result
    by (rule settle_last[OF i' sid' ne phid])
  have c1: "m_id (last (s_messages (trace ! 0 ! i))) = now2 + 1 \<and>
         m_videoState (last (s_messages (trace ! 0 ! i))) = Some Generating"
    by (simp add: t0 ph mk_message_def)
  have c2: "outcome = None \<longrightarrow> length trace = 1"
    using tr by simp
  have c3: "\<forall>uri. outcome = Some (Inr uri) \<longrightarrow>
            length trace = 2 \<and>
            m_id (last (s_messages (trace ! 1 ! i))) = now2 + 1 \<and>
            m_videoState (last (s_messages (trace ! 1 ! i))) = Some Done \<and>
            m_videoUrl (last (s_messages (trace ! 1 ! i))) = Some uri \<and>
            m_isLoading (last (s_messages (trace ! 1 ! i))) = Some False"
    using tr by (auto simp: fin mk_message_def)
  have c4: "\<forall>e. outcome = Some (Inl e) \<longrightarrow>
            length trace = 2 \<and>
            m_id (last (s_messages (trace ! 1 ! i))) = now2 + 1 \<and>
            m_videoState (last (s_messages (trace ! 1 ! i))) = Some Failed \<and>
            m_text (last (s_messages (trace ! 1 ! i))) =
              js ''Sorry, I couldn't generate the video. Error: '' @ errorMessage e \<and>
            m_isLoading (last (s_messages (trace ! 1 ! i))) = Some False"
    using tr by (auto simp: fin ph mk_message_def)
  have c5: "\<forall>operation0 operation.
            vb_generateVideos backend = Inr operation0 \<and>
            pollLoop operation0 (vb_getVideosOperation backend) = Some (Inr operation) \<and>
            \<not> truthyStr (op_uri operation) \<longrightarrow>
            outcome = Some (Inl (Error (js ''Video generation completed but no download link was found.'')))"
    using generateVideo_no_link assms(6) by blast
  have c6: "\<forall>result ss' j k.
            j < length ss' \<and> k < length (s_messages (ss' ! j)) \<longrightarrow>
            s_messages (handleVideoGeneration_settle sid (now2 + 1) result ss' ! j) ! k
              = s_messages (ss' ! j) ! k \<or>
            (s_id (ss' ! j) = sid \<and> m_id (s_messages (ss' ! j) ! k) = now2 + 1 \<and>
             m_videoState (s_messages (handleVideoGeneration_settle sid (now2 + 1) result ss' ! j) ! k)
               = Some (resolvedState result))"
    using settle_message by blast
  show ?thesis
    using c1 c2 c3 c4 c5 c6 by blast
qed

theorem video_lifecycle_witness:
  "generateVideo (js ''k'')
      \<lparr> vb_generateVideos = Inr \<lparr> op_done = None, op_uri = None \<rparr>,
        vb_getVideosOperation = [Inr \<lparr> op_done = Some False, op_uri = None \<rparr>,
                                 Inr \<lparr> op_done = Some True, op_uri = None \<rparr>] \<rparr>
      \<lparr> f_name = js ''a.png'', f_mimeType = js ''image/png'', f_data = js ''AAAA'', f_previewUrl = None \<rparr>
      (js ''waves'') Landscape
     = Some (Inl (Error (js ''Video generation completed but no download link was found.''))) \<and>
   map (\<lambda>snapshot. m_videoState (last (s_messages (snapshot ! 0))))
     (handleVideoGeneration (Some (js ''s1'')) 100 100 (js ''k'')
        \<lparr> vb_generateVideos = Inr \<lparr> op_done = None, op_uri = None \<rparr>,
          vb_getVideosOperation = [Inr \<lparr> op_done = Some False, op_uri = None \<rparr>,
                                   Inr \<lparr> op_done = Some True, op_uri = None \<rparr>] \<rparr>
        \<lparr> f_name = js ''a.png'', f_mimeType = js ''image/png'', f_data = js ''AAAA'', f_previewUrl = None \<rparr>
        (js ''waves'') Landscape
        [\<lparr> s_id = js ''s1'', s_title = js ''New Chat'', s_messages = [], s_languageCode = js ''en-US'' \<rparr>])
     = [Some Generating, Some Failed] \<and>
   m_text (last (s_messages
     (handleVideoGeneration (Some (js ''s1'')) 100 100 (js ''k'')
        \<lparr> vb_generateVideos = Inr \<lparr> op_done = None, op_uri = None \<rparr>,
          vb_getVideosOperation = [Inr \<lparr> op_done = Some False, op_uri = None \<rparr>,
                                   Inr \<lparr> op_done = Some True, op_uri = None \<rparr>] \<rparr>
        \<lparr> f_name = js ''a.png'', f_mimeType = js ''image/png'', f_data = js ''AAAA'', f_previewUrl = None \<rparr>
        (js ''waves'') Landscape
        [\<lparr> s_id = js ''s1'', s_title = js ''New Chat'', s_messages = [], s_languageCode = js ''en-US'' \<rparr>]
      ! 1 ! 0)))
     = js ''Sorry, I couldn't generate the video. Error: Video generation completed but no download link was found.''"
proof -
  let ?backend = "\<lparr> vb_generateVideos = Inr \<lparr> op_done = None, op_uri = None \<rparr>,
        vb_getVideosOperation = [Inr \<lparr> op_done = Some False, op_uri = None \<rparr>,
                                 Inr \<lparr> op_done = Some True, op_uri = None \<rparr>] \<rparr>"
  let ?file = "\<lparr> f_name = js ''a.png'', f_mimeType = js ''image/png'', f_data = js ''AAAA'', f_previewUrl = None \<rparr>"
  let ?ss = "[\<lparr> s_id = js ''s1'', s_title = js ''New Chat'', s_messages = [], s_languageCode = js ''en-US'' \<rparr>]"
  let ?trace = "handleVideoGeneration (Some (js ''s1'')) 100 100 (js ''k'') ?backend ?file (js ''waves'') Landscape ?ss"
  have out: "generateVideo (js ''k'') ?backend ?file (js ''waves'') Landscape
     = Some (Inl (Error (js ''Video generation completed but no download link was found.'')))"
    by (simp add: generateVideo_def truthy_def truthyStr_def)
  have sid: "js ''s1'' \<noteq> []" by (simp add: js_def)
  have len: "length ?trace = 2"
    using sid by (simp add: handleVideoGeneration_def out truthyStr_def Let_def)
  note L = video_lifecycle[OF refl sid, of 0 ?ss ?trace 100 100 "js ''k''" ?backend ?file "js ''waves''" Landscape, OF _ _ refl refl]
  have g: "m_videoState (last (s_messages (?trace ! 0 ! 0))) = Some Generating"
    using L by simp
  have f: "m_videoState (last (s_messages (?trace ! 1 ! 0))) = Some Failed \<and>
           m_text (last (s_messages (?trace ! 1 ! 0))) =
             js ''Sorry, I couldn't generate the video. Error: ''
             @ errorMessage (Error (js ''Video generation completed but no download link was found.''))"
    using L out by simp
  have m: "map (\<lambda>snapshot. m_videoState (last (s_messages (snapshot ! 0)))) ?trace
            = [m_videoState (last (s_messages (?trace ! 0 ! 0))), m_videoState (last (s_messages (?trace ! 1 ! 0)))]"
    using len by (cases ?trace) (auto simp: length_Suc_conv)
  show ?thesis
    using out g f m by (simp add: errorMessage_def js_def)
qed

subsection \<open>The image markdown pattern and the spans a replace removes\<close>

lemma takeWhile_length_le:
  "n \<le> length (takeWhile P xs) \<longleftrightarrow> n \<le> length xs \<and> (\<forall>p<n. P (xs ! p))"
proof (induction xs arbitrary: n)
  case Nil
  then show ?case by auto
next
  case (Cons x xs)
  show ?case
  proof (cases n)
    case 0
    then show ?thesis by simp
  next
    case (Suc m)
    then show ?thesis using Cons.IH[of m] by (auto simp: less_Suc_eq_0_disj)
  qed
qed

lemma litMatches_exact:
  "litMatches False p s i \<longleftrightarrow> i + length p \<le> length s \<and> take (length p) (drop i s) = p"
proof -
  have "canonicalize False = id" by (rule ext) (simp add: canonicalize_def)
  then show ?thesis by (simp add: litMatches_def)
qed

lemma first_upt:
  assumes "concat (map f [a ..< b]) = y # ys"
  shows "\<exists>x zs. a \<le> x \<and> x < b \<and> (\<forall>x'. a \<le> x' \<and> x' < x \<longrightarrow> f x' = []) \<and> f x = y # zs"
  using assms
proof (induction "b - a" arbitrary: a)
  case 0
  then show ?case by simp
next
  case (Suc n)
  then have ab: "a < b" by simp
  then have u: "[a ..< b] = a # [Suc a ..< b]" by (rule upt_conv_Cons)
  show ?case
  proof (cases "f a")
    case Nil
    with Suc.prems u have "concat (map f [Suc a ..< b]) = y # ys" by simp
    moreover have "n = b - Suc a" using Suc.hyps(2) by simp
    ultimately obtain x zs where x: "Suc a \<le> x" "x < b" "\<forall>x'. Suc a \<le> x' \<and> x' < x \<longrightarrow> f x' = []" "f x = y # zs"
      using Suc.hyps(1)[of "Suc a"] by blast
    have "\<forall>x'. a \<le> x' \<and> x' < x \<longrightarrow> f x' = []"
    proof (intro allI impI)
      fix x' assume "a \<le> x' \<and> x' < x"
      then have "x' = a \<or> (Suc a \<le> x' \<and> x' < x)" by auto
      then show "f x' = []" using Nil x(3) by auto
    qed
    with x show ?thesis by (intro exI[of _ x] exI[of _ zs]) simp
  next
    case (Cons z zs)
    with Suc.prems u have "z = y" by simp
    with Cons ab show ?thesis by (intro exI[of _ a] exI[of _ zs]) auto
  qed
qed

lemma empty_upt:
  "concat (map f [a ..< b]) = [] \<longleftrightarrow> (\<forall>x. a \<le> x \<and> x < b \<longrightarrow> f x = [])"
  by auto

lemma matcher_lazy_seq:
  "matcher ic (Seq (Lazy c 0 None # rs)) s (q, caps) =
     concat (map (\<lambda>k. matcher ic (Seq rs) s (k, caps)) [q ..< Suc (q + runLength c None s q)])"
proof -
  have "map (\<lambda>k. (q + k, caps)) [0 ..< Suc (runLength c None s q)]
      = map (\<lambda>k. (k, caps)) [q ..< Suc (q + runLength c None s q)]"
  proof -
    let ?n = "Suc (runLength c None s q)"
    have "map (\<lambda>k. (q + k, caps)) [0 ..< ?n] = map (\<lambda>k. (k, caps)) (map (\<lambda>i. i + q) [0 ..< ?n])"
      by (simp add: comp_def add.commute del: upt_Suc)
    also have "\<dots> = map (\<lambda>k. (k, caps)) [q ..< ?n + q]"
      by (simp only: map_add_upt)
    finally show ?thesis by (simp add: add.commute del: upt_Suc)
  qed
  then show ?thesis by (simp add: comp_def del: upt_Suc)
qed

lemma in_run:
  "q \<le> length s \<Longrightarrow>
   (q \<le> k \<and> k < Suc (q + runLength c None s q)) \<longleftrightarrow>
   (q \<le> k \<and> k \<le> length s \<and> (\<forall>p \<in> {q ..< k}. inClass c (s ! p)))"
proof -
  assume q: "q \<le> length s"
  show ?thesis
  proof (cases "q \<le> k")
    case False
    then show ?thesis by simp
  next
    case True
    have "k - q \<le> length (takeWhile (inClass c) (drop q s)) \<longleftrightarrow>
          k - q \<le> length (drop q s) \<and> (\<forall>p<k - q. inClass c (drop q s ! p))"
      by (rule takeWhile_length_le)
    moreover have "(\<forall>p<k - q. inClass c (drop q s ! p)) \<longleftrightarrow> (\<forall>p \<in> {q ..< k}. inClass c (s ! p))"
      if "k \<le> length s"
    proof
      assume h: "\<forall>p<k - q. inClass c (drop q s ! p)"
      show "\<forall>p \<in> {q ..< k}. inClass c (s ! p)"
      proof
        fix p assume "p \<in> {q ..< k}"
        then have "p - q < k - q" "q + (p - q) = p" by auto
        with h have "inClass c (drop q s ! (p - q))" by blast
        then show "inClass c (s ! p)" using q \<open>q + (p - q) = p\<close> by (simp add: nth_drop)
      qed
    next
      assume h: "\<forall>p \<in> {q ..< k}. inClass c (s ! p)"
      show "\<forall>p<k - q. inClass c (drop q s ! p)"
        using h q by (auto simp: nth_drop)
    qed
    ultimately show ?thesis using True q by (auto simp: runLength_def)
  qed
qed

lemma take2_conv:
  "take 2 (drop j s) = [a, b] \<longleftrightarrow> Suc j < length s \<and> s ! j = a \<and> s ! Suc j = b"
proof (cases "Suc j < length s")
  case True
  then have "drop j s = s ! j # s ! Suc j # drop (Suc (Suc j)) s"
    by (simp add: Cons_nth_drop_Suc Suc_lessD)
  then show ?thesis using True by simp
next
  case False
  then have "length (take 2 (drop j s)) < 2" by simp
  then have "take 2 (drop j s) \<noteq> [a, b]" by (metis length_Cons list.size(3) less_irrefl numeral_2_eq_2)
  then show ?thesis using False by simp
qed

lemma take1_conv:
  "take 1 (drop k s) = [a] \<longleftrightarrow> k < length s \<and> s ! k = a"
proof (cases "k < length s")
  case True
  then have "drop k s = s ! k # drop (Suc k) s" by (simp add: Cons_nth_drop_Suc)
  then show ?thesis using True by simp
next
  case False
  then show ?thesis by simp
qed

lemma take1_conv':
  "take (Suc 0) (drop k s) = [a] \<longleftrightarrow> k < length s \<and> s ! k = a"
  using take1_conv[of k s a] by simp

lemma matcher_lit_seq:
  "matcher False (Seq (Lit p # rs)) s (i, caps) =
     (if i + length p \<le> length s \<and> take (length p) (drop i s) = p
      then matcher False (Seq rs) s (i + length p, caps) else [])"
  by (auto simp: litMatches_exact)

lemma length_js2: "length (js ''!['') = 2" "length (js '']('') = 2"
  by (simp_all add: js_def)

lemma inner_matcher:
  assumes q: "q \<le> length s"
  shows "matcher False (Seq [Lazy Dot 0 None, Lit (js '')'')]) s (q, caps) = [] \<longleftrightarrow> \<not> (\<exists>k. closeAt s q k)"
    and "matcher False (Seq [Lazy Dot 0 None, Lit (js '')'')]) s (q, caps) = (e, c') # rest \<Longrightarrow>
         c' = caps \<and> (\<exists>k. e = Suc k \<and> closeAt s q k \<and> (\<forall>k'. closeAt s q k' \<longrightarrow> k \<le> k'))"
proof -
  note matcher.simps [simp del]
  let ?L = "matcher False (Seq [Lazy Dot 0 None, Lit (js '')'')]) s (q, caps)"
  let ?f = "\<lambda>k. matcher False (Seq [Lit (js '')'')]) s (k, caps)"
  let ?b = "Suc (q + runLength Dot None s q)"
  have L: "?L = concat (map ?f [q ..< ?b])"
    by (rule matcher_lazy_seq)
  have f: "?f k = (if k < length s \<and> s ! k = 41 then [(Suc k, caps)] else [])" for k
    by (auto simp: matcher_lit_seq matcher.simps(3) js_def take1_conv')
  have range: "(q \<le> k \<and> k < ?b) \<longleftrightarrow> (q \<le> k \<and> k \<le> length s \<and> (\<forall>p \<in> {q ..< k}. \<not> isLineTerminator (s ! p)))" for k
    using in_run[OF q, of k Dot] by (simp add: inClass_def)
  have close: "closeAt s q k \<longleftrightarrow> q \<le> k \<and> k < ?b \<and> ?f k \<noteq> []" for k
    using range[of k] unfolding f by (auto simp: closeAt_def js_def take1_conv')
  show "?L = [] \<longleftrightarrow> \<not> (\<exists>k. closeAt s q k)"
    unfolding L empty_upt close by blast
  show "c' = caps \<and> (\<exists>k. e = Suc k \<and> closeAt s q k \<and> (\<forall>k'. closeAt s q k' \<longrightarrow> k \<le> k'))"
    if "?L = (e, c') # rest"
  proof -
    from that L have "concat (map ?f [q ..< ?b]) = (e, c') # rest" by simp
    from first_upt[OF this] obtain x zs where
      x: "q \<le> x" "x < ?b" "\<forall>x'. q \<le> x' \<and> x' < x \<longrightarrow> ?f x' = []" "?f x = (e, c') # zs"
      by blast
    from x(4) have ec: "e = Suc x" "c' = caps" by (auto simp: f split: if_splits)
    have cx: "closeAt s q x" using x(1,2,4) by (simp add: close)
    have "x \<le> k'" if "closeAt s q k'" for k'
    proof (rule ccontr)
      assume "\<not> x \<le> k'"
      with that have "q \<le> k'" "k' < x" "?f k' \<noteq> []" by (simp_all add: close)
      with x(3) show False by blast
    qed
    with ec cx show ?thesis by blast
  qed
qed

lemma markdown_split:
  "imageMarkdownAt s i j k \<longleftrightarrow>
     take 2 (drop i s) = js ''!['' \<and> i + 2 \<le> j \<and> (\<forall>p \<in> {i + 2 ..< j}. \<not> isLineTerminator (s ! p)) \<and>
     take 2 (drop j s) = js '']('' \<and> closeAt s (j + 2) k"
proof -
  have "(\<forall>p \<in> {i + 2 ..< k}. \<not> isLineTerminator (s ! p)) \<longleftrightarrow>
        (\<forall>p \<in> {i + 2 ..< j}. \<not> isLineTerminator (s ! p)) \<and> (\<forall>p \<in> {j + 2 ..< k}. \<not> isLineTerminator (s ! p))"
    if ij: "i + 2 \<le> j" and jk: "j + 2 \<le> k" and j: "s ! j = 93" "s ! Suc j = 40"
  proof
    assume "\<forall>p \<in> {i + 2 ..< k}. \<not> isLineTerminator (s ! p)"
    then show "(\<forall>p \<in> {i + 2 ..< j}. \<not> isLineTerminator (s ! p)) \<and> (\<forall>p \<in> {j + 2 ..< k}. \<not> isLineTerminator (s ! p))"
      using ij jk by auto
  next
    assume h: "(\<forall>p \<in> {i + 2 ..< j}. \<not> isLineTerminator (s ! p)) \<and> (\<forall>p \<in> {j + 2 ..< k}. \<not> isLineTerminator (s ! p))"
    show "\<forall>p \<in> {i + 2 ..< k}. \<not> isLineTerminator (s ! p)"
    proof
      fix p assume p: "p \<in> {i + 2 ..< k}"
      consider "p < j" | "p = j" | "p = Suc j" | "j + 2 \<le> p" by linarith
      then show "\<not> isLineTerminator (s ! p)"
      proof cases
        case 1 with h p show ?thesis by simp
      next
        case 2 with j show ?thesis by (simp add: isLineTerminator_def)
      next
        case 3 with j show ?thesis by (simp add: isLineTerminator_def)
      next
        case 4 with h p show ?thesis by simp
      qed
    qed
  qed
  then show ?thesis
    by (auto simp: imageMarkdownAt_def closeAt_def js_def take2_conv)
qed

lemma image_matcher:
  shows "matcher False imageMarkdownRegex s (i, []) = [] \<longleftrightarrow> \<not> (\<exists>j k. imageMarkdownAt s i j k)"
    and "matcher False imageMarkdownRegex s (i, []) = (e, caps) # rest \<Longrightarrow> imageMatch s i e"
proof -
  note matcher.simps [simp del]
  let ?M = "matcher False imageMarkdownRegex s (i, [])"
  let ?in = "\<lambda>q. matcher False (Seq [Lazy Dot 0 None, Lit (js '')'')]) s (q, [])"
  let ?g = "\<lambda>j. matcher False (Seq [Lit (js ''](''  ), Lazy Dot 0 None, Lit (js '')'')]) s (j, [])"
  let ?b = "Suc (i + 2 + runLength Dot None s (i + 2))"
  have key: "(?M = [] \<longleftrightarrow> \<not> (\<exists>j k. imageMarkdownAt s i j k)) \<and>
             (\<forall>e caps rest. ?M = (e, caps) # rest \<longrightarrow> imageMatch s i e)"
  proof (cases "take 2 (drop i s) = js ''![''")
    case False
    then have "?M = []"
      unfolding imageMarkdownRegex_def matcher_lit_seq length_js2 by simp
    then show ?thesis
      using False by (simp add: imageMarkdownAt_def)
  next
    case True
    then have len: "i + 2 \<le> length s" by (simp add: js_def take2_conv)
    have "?M = matcher False (Seq [Lazy Dot 0 None, Lit (js '']('' ), Lazy Dot 0 None, Lit (js '')'')]) s (i + 2, [])"
      unfolding imageMarkdownRegex_def matcher_lit_seq length_js2 using True len by simp
    also have "\<dots> = concat (map (\<lambda>j. matcher False (Seq [Lit (js '']('' ), Lazy Dot 0 None, Lit (js '')'')]) s (j, [])) [i + 2 ..< ?b])"
      by (rule matcher_lazy_seq)
    finally have M: "?M = concat (map (\<lambda>j. matcher False (Seq [Lit (js '']('' ), Lazy Dot 0 None, Lit (js '')'')]) s (j, [])) [i + 2 ..< ?b])" .
    have g: "matcher False (Seq [Lit (js '']('' ), Lazy Dot 0 None, Lit (js '')'')]) s (j, [])
              = (if take 2 (drop j s) = js '']('' then ?in (j + 2) else [])" for j
      unfolding matcher_lit_seq length_js2 by (auto simp: js_def take2_conv)
    have range: "(i + 2 \<le> j \<and> j < ?b) \<longleftrightarrow>
                 (i + 2 \<le> j \<and> j \<le> length s \<and> (\<forall>p \<in> {i + 2 ..< j}. \<not> isLineTerminator (s ! p)))" for j
      using in_run[OF len, of j Dot] by (simp add: inClass_def)
    have valid: "imageMarkdownAt s i j k \<longleftrightarrow>
                 i + 2 \<le> j \<and> j < ?b \<and> take 2 (drop j s) = js '']('' \<and> closeAt s (j + 2) k" for j k
      using range[of j] True by (auto simp: markdown_split js_def take2_conv)
    have nonempty: "(\<exists>k. imageMarkdownAt s i j k) \<longleftrightarrow>
                    i + 2 \<le> j \<and> j < ?b \<and>
                    matcher False (Seq [Lit (js '']('' ), Lazy Dot 0 None, Lit (js '')'')]) s (j, []) \<noteq> []" for j
    proof (cases "take 2 (drop j s) = js '']('' ")
      case False
      then show ?thesis by (simp add: valid g)
    next
      case True
      then have "j + 2 \<le> length s" by (simp add: js_def take2_conv)
      from inner_matcher(1)[OF this, of "[]"] True show ?thesis by (simp add: valid g)
    qed
    have none: "?M = [] \<longleftrightarrow> \<not> (\<exists>j k. imageMarkdownAt s i j k)"
      unfolding M empty_upt using nonempty by blast
    have "imageMatch s i e" if "?M = (e, caps) # rest" for e caps rest
    proof -
      from that M have "concat (map (\<lambda>j. matcher False (Seq [Lit (js '']('' ), Lazy Dot 0 None, Lit (js '')'')]) s (j, [])) [i + 2 ..< ?b]) = (e, caps) # rest"
        by simp
      from first_upt[OF this] obtain x zs where
        x: "i + 2 \<le> x" "x < ?b"
           "\<forall>x'. i + 2 \<le> x' \<and> x' < x \<longrightarrow> matcher False (Seq [Lit (js '']('' ), Lazy Dot 0 None, Lit (js '')'')]) s (x', []) = []"
           "matcher False (Seq [Lit (js '']('' ), Lazy Dot 0 None, Lit (js '')'')]) s (x, []) = (e, caps) # zs"
        by blast
      from x(4) have br: "take 2 (drop x s) = js '']('' " and inx: "?in (x + 2) = (e, caps) # zs"
        by (simp_all add: g split: if_splits)
      from br have "x + 2 \<le> length s" by (simp add: js_def take2_conv)
      from inner_matcher(2)[OF this inx] obtain k where
        k: "e = Suc k" "closeAt s (x + 2) k" "\<forall>k'. closeAt s (x + 2) k' \<longrightarrow> k \<le> k'"
        by blast
      have at: "imageMarkdownAt s i x k" using x(1,2) br k(2) by (simp add: valid)
      have least: "x < j' \<or> (x = j' \<and> k \<le> k')" if v: "imageMarkdownAt s i j' k'" for j' k'
      proof -
        from v have "\<exists>k. imageMarkdownAt s i j' k" by blast
        then have j': "i + 2 \<le> j'"
          "matcher False (Seq [Lit (js '']('' ), Lazy Dot 0 None, Lit (js '')'')]) s (j', []) \<noteq> []"
          by (simp_all add: nonempty)
        with x(3) have "x \<le> j'" by (meson not_le_imp_less)
        moreover have "k \<le> k'" if "x = j'"
          using v that k(3) by (simp add: valid)
        ultimately show ?thesis by linarith
      qed
      show ?thesis
        unfolding imageMatch_def using at k(1) least by blast
    qed
    with none show ?thesis by blast
  qed
  from key show "?M = [] \<longleftrightarrow> \<not> (\<exists>j k. imageMarkdownAt s i j k)" by blast
  from key show "?M = (e, caps) # rest \<Longrightarrow> imageMatch s i e" by blast
qed

lemma imageMatch_unique: "imageMatch s a e \<Longrightarrow> imageMatch s a e' \<Longrightarrow> e = e'"
  unfolding imageMatch_def by (metis le_antisym less_irrefl less_imp_not_less)

lemma imageMatch_bounds: "imageMatch s a e \<Longrightarrow> a < e \<and> e \<le> length s"
  by (auto simp: imageMatch_def imageMarkdownAt_def js_def take1_conv')

lemma scanSpans_props:
  "(\<forall>x \<in> set (scanSpans ic r s i). i \<le> fst x \<and> fst x < snd x) \<and>
   sorted_wrt (\<lambda>x y. snd x \<le> fst y) (scanSpans ic r s i)"
proof (induction ic r s i rule: scanSpans.induct)
  case (1 ic r s i)
  note scanSpans.simps [simp del]
  show ?case
  proof (cases "length s \<le> i")
    case True
    then show ?thesis by (subst scanSpans.simps, subst (2) scanSpans.simps) simp
  next
    case False
    show ?thesis
    proof (cases "matcher ic r s (i, [])")
      case Nil
      have eq: "scanSpans ic r s i = scanSpans ic r s (Suc i)"
        using False Nil by (subst scanSpans.simps) simp
      from "1.IH"(1)[OF False Nil] show ?thesis unfolding eq by auto
    next
      case (Cons x xs)
      obtain e caps where x: "x = (e, caps)" by (cases x)
      show ?thesis
      proof (cases "i < e")
        case True
        have eq: "scanSpans ic r s i = (i, e) # scanSpans ic r s e"
          using False Cons x True by (subst scanSpans.simps) simp
        from "1.IH"(2)[OF False Cons x[symmetric] True] True show ?thesis unfolding eq by auto
      next
        case ne: False
        have eq: "scanSpans ic r s i = scanSpans ic r s (Suc i)"
          using False Cons x ne by (subst scanSpans.simps) simp
        from "1.IH"(3)[OF False Cons x[symmetric] ne] show ?thesis unfolding eq by auto
      qed
    qed
  qed
qed

lemma covered_Cons: "covered ((a, e) # spans) p \<longleftrightarrow> (a \<le> p \<and> p < e) \<or> covered spans p"
  by (simp add: covered_def)

lemma not_covered_before:
  "\<forall>x \<in> set spans. i \<le> fst x \<Longrightarrow> p < i \<Longrightarrow> \<not> covered spans p"
  by (auto simp: covered_def)

lemma filter_skip:
  assumes "i \<le> e"
  shows "filter (\<lambda>p. e \<le> p \<and> Q p) [i ..< n] = filter Q [e ..< n]"
proof (cases "e \<le> n")
  case True
  then obtain d where "n = e + d" using le_Suc_ex by blast
  with assms have "[i ..< n] = [i ..< e] @ [e ..< n]" using upt_add_eq_append[of i e d] by simp
  moreover have "filter (\<lambda>p. e \<le> p \<and> Q p) [i ..< e] = []" by (simp add: filter_empty_conv)
  moreover have "filter (\<lambda>p. e \<le> p \<and> Q p) [e ..< n] = filter Q [e ..< n]"
    by (rule filter_cong) simp_all
  ultimately show ?thesis by simp
next
  case False
  then have "filter (\<lambda>p. e \<le> p \<and> Q p) [i ..< n] = []" by (simp add: filter_empty_conv)
  with False show ?thesis by simp
qed

lemma removeMatches_scanSpans:
  "removeMatches ic r s i =
     map ((!) s) (filter (\<lambda>p. \<not> covered (scanSpans ic r s i) p) [i ..< length s])"
proof (induction ic r s i rule: scanSpans.induct)
  case (1 ic r s i)
  note scanSpans.simps [simp del] removeMatches.simps [simp del]
  show ?case
  proof (cases "length s \<le> i")
    case True
    then show ?thesis by (subst removeMatches.simps) simp
  next
    case False
    then have upt: "[i ..< length s] = i # [Suc i ..< length s]" by (simp add: upt_conv_Cons)
    have keep: ?thesis
      if rm: "removeMatches ic r s i = s ! i # removeMatches ic r s (Suc i)"
        and sc: "scanSpans ic r s i = scanSpans ic r s (Suc i)"
        and ih: "removeMatches ic r s (Suc i) =
                   map ((!) s) (filter (\<lambda>p. \<not> covered (scanSpans ic r s (Suc i)) p) [Suc i ..< length s])"
    proof -
      have "\<not> covered (scanSpans ic r s (Suc i)) i"
        using scanSpans_props[of ic r s "Suc i"] by (intro not_covered_before[of _ "Suc i"]) auto
      then show ?thesis unfolding rm sc ih upt by simp
    qed
    show ?thesis
    proof (cases "matcher ic r s (i, [])")
      case Nil
      have rm: "removeMatches ic r s i = s ! i # removeMatches ic r s (Suc i)"
        using False Nil by (subst removeMatches.simps) simp
      have sc: "scanSpans ic r s i = scanSpans ic r s (Suc i)"
        using False Nil by (subst scanSpans.simps) simp
      from keep[OF rm sc "1.IH"(1)[OF False Nil]] show ?thesis .
    next
      case (Cons x xs)
      obtain e caps where x: "x = (e, caps)" by (cases x)
      show ?thesis
      proof (cases "i < e")
        case True
        have rm: "removeMatches ic r s i = removeMatches ic r s e"
          using False Cons x True by (subst removeMatches.simps) simp
        have sc: "scanSpans ic r s i = (i, e) # scanSpans ic r s e"
          using False Cons x True by (subst scanSpans.simps) simp
        have "filter (\<lambda>p. \<not> covered ((i, e) # scanSpans ic r s e) p) [i ..< length s]
              = filter (\<lambda>p. e \<le> p \<and> \<not> covered (scanSpans ic r s e) p) [i ..< length s]"
          by (rule filter_cong) (auto simp: covered_Cons)
        also have "\<dots> = filter (\<lambda>p. \<not> covered (scanSpans ic r s e) p) [e ..< length s]"
          using True by (intro filter_skip) simp
        finally show ?thesis
          unfolding rm sc "1.IH"(2)[OF False Cons x[symmetric] True] by simp
      next
        case ne: False
        have rm: "removeMatches ic r s i = s ! i # removeMatches ic r s (Suc i)"
          using False Cons x ne by (subst removeMatches.simps) simp
        have sc: "scanSpans ic r s i = scanSpans ic r s (Suc i)"
          using False Cons x ne by (subst scanSpans.simps) simp
        from keep[OF rm sc "1.IH"(3)[OF False Cons x[symmetric] ne]] show ?thesis .
      qed
    qed
  qed
qed

lemma removeMatches_outside:
  "removeMatches ic r s 0 = outside s (scanSpans ic r s 0)"
  by (simp add: removeMatches_scanSpans outside_def del: scanSpans.simps removeMatches.simps)

lemma imageMatch_at: "imageMatch s a e \<Longrightarrow> \<exists>j k. imageMarkdownAt s a j k"
  by (auto simp: imageMatch_def)

lemma scan_image_step:
  assumes "i < length s"
  shows "(matcher False imageMarkdownRegex s (i, []) = [] \<and> (\<forall>e. \<not> imageMatch s i e) \<and>
          scanSpans False imageMarkdownRegex s i = scanSpans False imageMarkdownRegex s (Suc i)) \<or>
         (\<exists>e. imageMatch s i e \<and> i < e \<and> e \<le> length s \<and>
          scanSpans False imageMarkdownRegex s i = (i, e) # scanSpans False imageMarkdownRegex s e)"
proof (cases "matcher False imageMarkdownRegex s (i, [])")
  case Nil
  then have "\<forall>e. \<not> imageMatch s i e" using image_matcher(1)[of s i] imageMatch_at by blast
  moreover have "scanSpans False imageMarkdownRegex s i = scanSpans False imageMarkdownRegex s (Suc i)"
    using assms Nil by (subst scanSpans.simps) (simp del: scanSpans.simps)
  ultimately show ?thesis using Nil by blast
next
  case (Cons x xs)
  obtain e caps where x: "x = (e, caps)" by (cases x)
  from Cons x have m: "imageMatch s i e" using image_matcher(2) by blast
  from imageMatch_bounds[OF m] have b: "i < e" "e \<le> length s" by simp_all
  have "scanSpans False imageMarkdownRegex s i = (i, e) # scanSpans False imageMarkdownRegex s e"
    using assms Cons x b by (subst scanSpans.simps) (simp del: scanSpans.simps)
  with m b show ?thesis by blast
qed

lemma scan_image_end:
  "length s \<le> i \<Longrightarrow> scanSpans False imageMarkdownRegex s i = []"
  by (subst scanSpans.simps) (simp del: scanSpans.simps)

lemma scan_image_sound:
  "(\<forall>x \<in> set (scanSpans False imageMarkdownRegex s i). imageMatch s (fst x) (snd x)) \<and>
   (\<forall>p e. i \<le> p \<and> p < length s \<and> \<not> covered (scanSpans False imageMarkdownRegex s i) p
           \<longrightarrow> \<not> imageMatch s p e)"
proof (induction "length s - i" arbitrary: i rule: less_induct)
  case less
  show ?case
  proof (cases "i < length s")
    case False
    then show ?thesis by (auto simp add: scan_image_end simp del: scanSpans.simps)
  next
    case True
    from scan_image_step[OF True] show ?thesis
    proof (elim disjE conjE exE)
      assume no: "\<forall>e. \<not> imageMatch s i e"
        and sc: "scanSpans False imageMarkdownRegex s i = scanSpans False imageMarkdownRegex s (Suc i)"
      have "length s - Suc i < length s - i" using True by simp
      from less[OF this] have ih: "\<forall>x \<in> set (scanSpans False imageMarkdownRegex s (Suc i)). imageMatch s (fst x) (snd x)"
        and ih2: "\<forall>p e. Suc i \<le> p \<and> p < length s \<and> \<not> covered (scanSpans False imageMarkdownRegex s (Suc i)) p
           \<longrightarrow> \<not> imageMatch s p e" by blast+
      have "\<not> imageMatch s p e"
        if "i \<le> p \<and> p < length s \<and> \<not> covered (scanSpans False imageMarkdownRegex s (Suc i)) p" for p e
      proof (cases "p = i")
        case True with no show ?thesis by blast
      next
        case False
        with that have "Suc i \<le> p" by simp
        with that ih2 show ?thesis by blast
      qed
      with ih show ?thesis unfolding sc by blast
    next
      fix e assume m: "imageMatch s i e" and b: "i < e" "e \<le> length s"
        and sc: "scanSpans False imageMarkdownRegex s i = (i, e) # scanSpans False imageMarkdownRegex s e"
      have "length s - e < length s - i" using True b by simp
      from less[OF this] have ih: "\<forall>x \<in> set (scanSpans False imageMarkdownRegex s e). imageMatch s (fst x) (snd x)"
        and ih2: "\<forall>p e'. e \<le> p \<and> p < length s \<and> \<not> covered (scanSpans False imageMarkdownRegex s e) p
           \<longrightarrow> \<not> imageMatch s p e'" by blast+
      have "\<not> imageMatch s p e'"
        if "i \<le> p \<and> p < length s \<and> \<not> covered ((i, e) # scanSpans False imageMarkdownRegex s e) p" for p e'
      proof -
        from that have "e \<le> p" "\<not> covered (scanSpans False imageMarkdownRegex s e) p"
          by (auto simp: covered_Cons simp del: scanSpans.simps)
        with that ih2 show ?thesis by blast
      qed
      with ih m show ?thesis unfolding sc by (simp del: scanSpans.simps)
    qed
  qed
qed

lemma imageSpans_scan: "imageSpans s (scanSpans False imageMarkdownRegex s 0)"
proof -
  let ?sp = "scanSpans False imageMarkdownRegex s 0"
  from scan_image_sound[of s 0]
  have 1: "\<forall>x \<in> set ?sp. imageMatch s (fst x) (snd x)"
    and 3: "\<forall>p e. 0 \<le> p \<and> p < length s \<and> \<not> covered ?sp p \<longrightarrow> \<not> imageMatch s p e"
    by blast+
  from scanSpans_props[of False imageMarkdownRegex s 0]
  have 2: "sorted_wrt (\<lambda>x y. snd x \<le> fst y) ?sp" by blast
  have "\<forall>(a, e) \<in> set ?sp. imageMatch s a e"
    using 1 by (simp add: case_prod_beta del: scanSpans.simps)
  moreover have "\<forall>p e. p < length s \<and> \<not> covered ?sp p \<longrightarrow> \<not> imageMatch s p e"
    using 3 by (simp del: scanSpans.simps)
  ultimately show ?thesis
    unfolding imageSpans_def using 2 by blast
qed

lemma imageSpans_unique_from:
  assumes "\<forall>x \<in> set spans. imageMatch s (fst x) (snd x) \<and> i \<le> fst x"
      and "sorted_wrt (\<lambda>x y. snd x \<le> fst y) spans"
      and "\<forall>p e. i \<le> p \<and> p < length s \<and> \<not> covered spans p \<longrightarrow> \<not> imageMatch s p e"
  shows "spans = scanSpans False imageMarkdownRegex s i"
  using assms
proof (induction "length s - i" arbitrary: i spans rule: less_induct)
  case less
  note m = less.prems(1) and srt = less.prems(2) and unc = less.prems(3)
  show ?case
  proof (cases "i < length s")
    case False
    have "spans = []"
    proof (cases spans)
      case (Cons x xs)
      with m have "imageMatch s (fst x) (snd x)" "i \<le> fst x" by simp_all
      with imageMatch_bounds[of s "fst x" "snd x"] False show ?thesis by simp
    qed simp
    with False show ?thesis by (simp add: scan_image_end del: scanSpans.simps)
  next
    case True
    from scan_image_step[OF True] show ?thesis
    proof (elim disjE conjE exE)
      assume no: "\<forall>e. \<not> imageMatch s i e"
        and sc: "scanSpans False imageMarkdownRegex s i = scanSpans False imageMarkdownRegex s (Suc i)"
      have 1: "\<forall>x \<in> set spans. imageMatch s (fst x) (snd x) \<and> Suc i \<le> fst x"
      proof
        fix x assume x: "x \<in> set spans"
        with m have "imageMatch s (fst x) (snd x)" "i \<le> fst x" by simp_all
        with no have "fst x \<noteq> i" by metis
        with \<open>imageMatch s (fst x) (snd x)\<close> \<open>i \<le> fst x\<close>
        show "imageMatch s (fst x) (snd x) \<and> Suc i \<le> fst x" by simp
      qed
      have 3: "\<forall>p e. Suc i \<le> p \<and> p < length s \<and> \<not> covered spans p \<longrightarrow> \<not> imageMatch s p e"
        using unc by (simp add: Suc_le_eq less_imp_le)
      have "length s - Suc i < length s - i" using True by simp
      from less.hyps[OF this 1 srt 3] show ?thesis unfolding sc .
    next
      fix e assume me: "imageMatch s i e" and b: "i < e" "e \<le> length s"
        and sc: "scanSpans False imageMarkdownRegex s i = (i, e) # scanSpans False imageMarkdownRegex s e"
      have "covered spans i" using unc True me by blast
      then obtain x where x: "x \<in> set spans" "fst x \<le> i" "i < snd x"
        by (auto simp: covered_def)
      from m x(1) have mx0: "imageMatch s (fst x) (snd x)" and "i \<le> fst x" by blast+
      with x(2) have xi: "fst x = i" by simp
      with mx0 have mx: "imageMatch s i (snd x)" by simp
      from imageMatch_unique[OF me mx] xi have xe: "x = (i, e)" by (cases x) simp
      obtain y rest where sp: "spans = y # rest" using x(1) by (cases spans) auto
      have y: "y = (i, e)"
      proof (rule ccontr)
        assume "y \<noteq> (i, e)"
        with x(1) xe sp have "(i, e) \<in> set rest" by simp
        with srt sp have "snd y \<le> i" by auto
        moreover from m sp have "imageMatch s (fst y) (snd y)" "i \<le> fst y" by simp_all
        ultimately show False using imageMatch_bounds[of s "fst y" "snd y"] by simp
      qed
      have 1: "\<forall>x \<in> set rest. imageMatch s (fst x) (snd x) \<and> e \<le> fst x"
        using m srt sp y by auto
      have 2: "sorted_wrt (\<lambda>x y. snd x \<le> fst y) rest" using srt sp by simp
      have 3: "\<forall>p e'. e \<le> p \<and> p < length s \<and> \<not> covered rest p \<longrightarrow> \<not> imageMatch s p e'"
      proof (intro allI impI)
        fix p e' assume p: "e \<le> p \<and> p < length s \<and> \<not> covered rest p"
        then have "\<not> covered spans p" by (simp add: sp y covered_Cons)
        moreover have "i \<le> p" using p b by simp
        ultimately show "\<not> imageMatch s p e'" using unc p by blast
      qed
      have "length s - e < length s - i" using True b by simp
      from less.hyps[OF this 1 2 3] show ?thesis unfolding sc sp y by (simp del: scanSpans.simps)
    qed
  qed
qed

lemma imageSpans_unique:
  assumes "imageSpans s spans"
  shows "spans = scanSpans False imageMarkdownRegex s 0"
proof (rule imageSpans_unique_from)
  show "\<forall>x \<in> set spans. imageMatch s (fst x) (snd x) \<and> 0 \<le> fst x"
    using assms by (simp add: imageSpans_def case_prod_beta)
  show "sorted_wrt (\<lambda>x y. snd x \<le> fst y) spans"
    using assms by (simp add: imageSpans_def)
  show "\<forall>p e. 0 \<le> p \<and> p < length s \<and> \<not> covered spans p \<longrightarrow> \<not> imageMatch s p e"
    using assms by (simp add: imageSpans_def)
qed

subsection \<open>The streamed reply\<close>

lemma updateSessionMessages_compose:
  "updateSessionMessages sid (Updater (map f)) (updateSessionMessages sid (Updater (map g)) ss)
     = updateSessionMessages sid (Updater (map (f \<circ> g))) ss"
  by (induction ss) (simp_all add: updateSessionMessages_def applyUpdate_def)

lemma streaming_then_streaming:
  "(\<lambda>msg. if m_id msg = bid then msg\<lparr> m_text := t2, m_isLoading := Some True \<rparr> else msg) \<circ>
   (\<lambda>msg. if m_id msg = bid then msg\<lparr> m_text := t1, m_isLoading := Some True \<rparr> else msg)
   = (\<lambda>msg. if m_id msg = bid then msg\<lparr> m_text := t2, m_isLoading := Some True \<rparr> else msg)"
  by (rule ext) simp

lemma replace_after_streaming:
  "(\<lambda>msg. if m_id msg = bid then (final :: chat_message) else msg) \<circ>
   (\<lambda>msg. if m_id msg = bid then msg\<lparr> m_text := t1, m_isLoading := Some True \<rparr> else msg)
   = (\<lambda>msg. if m_id msg = bid then final else msg)"
  by (rule ext) simp

lemma streamed_step:
  "updateSessionMessages sid (Updater (streamingUpdate bid t2)) (streamed sid bid t1 ss) = streamed sid bid t2 ss"
proof -
  have "streamingUpdate bid t2 =
      map (\<lambda>msg. if m_id msg = bid then msg\<lparr> m_text := t2, m_isLoading := Some True \<rparr> else msg)"
    by (rule ext) (simp add: streamingUpdate_def)
  then show ?thesis
    by (simp add: streamed_def updateSessionMessages_compose streaming_then_streaming)
qed

lemma streamed_first:
  "updateSessionMessages sid (Updater (streamingUpdate bid t)) ss = streamed sid bid t ss"
proof -
  have "streamingUpdate bid t =
      map (\<lambda>msg. if m_id msg = bid then msg\<lparr> m_text := t, m_isLoading := Some True \<rparr> else msg)"
    by (rule ext) (simp add: streamingUpdate_def)
  then show ?thesis by (simp add: streamed_def)
qed

lemma map_upt_shift:
  "map f [0 ..< length (c # rest)] = f 0 # map (\<lambda>n. f (Suc n)) [0 ..< length rest]"
  using map_upt_Suc[of f "length rest"] by (simp del: upt_Suc)

lemma streamLoop_from_streamed:
  "streamLoop sid bid chunks full srcs (streamed sid bid full ss) =
     (full @ accumulated chunks, srcs @ collected chunks,
      map (\<lambda>n. streamed sid bid (full @ accumulated (take (Suc n) chunks)) ss) [0 ..< length chunks])"
proof (induction chunks arbitrary: full srcs)
  case Nil
  then show ?case by (simp add: accumulated_def collected_def)
next
  case (Cons c rest)
  have shift: "map (\<lambda>n. streamed sid bid (full @ accumulated (take (Suc n) (c # rest))) ss) [0 ..< length (c # rest)]
      = streamed sid bid (full @ chunkText c) ss
        # map (\<lambda>n. streamed sid bid ((full @ chunkText c) @ accumulated (take (Suc n) rest)) ss) [0 ..< length rest]"
    by (simp only: map_upt_shift) (simp add: accumulated_def)
  show ?case
    using Cons.IH[of "full @ chunkText c" "srcs @ webChunks c"]
    by (subst shift) (simp add: streamed_step accumulated_def collected_def)
qed

lemma streamLoop_closed:
  "streamLoop sid bid chunks [] [] ss =
     (accumulated chunks, collected chunks,
      map (\<lambda>n. streamed sid bid (accumulated (take (Suc n) chunks)) ss) [0 ..< length chunks])"
proof (cases chunks)
  case Nil
  then show ?thesis by (simp add: accumulated_def collected_def)
next
  case (Cons c rest)
  have shift: "map (\<lambda>n. streamed sid bid (accumulated (take (Suc n) (c # rest))) ss) [0 ..< length (c # rest)]
      = streamed sid bid (chunkText c) ss
        # map (\<lambda>n. streamed sid bid (chunkText c @ accumulated (take (Suc n) rest)) ss) [0 ..< length rest]"
    by (simp only: map_upt_shift) (simp add: accumulated_def)
  show ?thesis
    unfolding Cons
    using streamLoop_from_streamed[of sid bid rest "chunkText c" "webChunks c" ss]
    by (subst shift) (simp add: streamed_first accumulated_def collected_def Let_def)
qed

lemma fst_mapSet: "map fst (mapSet m k v) = (if k \<in> fst ` set m then map fst m else map fst m @ [k])"
  by (induction m) force+

lemma distinct_mapSet: "distinct (map fst m) \<Longrightarrow> distinct (map fst (mapSet m k v))"
  by (simp add: fst_mapSet)

lemma map_of_mapSet: "map_of (mapSet m k v) = (map_of m)(k \<mapsto> v)"
  by (induction m) (auto simp: fun_upd_twist)

lemma foldl_mapSet:
  "distinct (map fst m) \<Longrightarrow>
   distinct (map fst (foldl (\<lambda>m (k, v). mapSet m k v) m es)) \<and>
   map_of (foldl (\<lambda>m (k, v). mapSet m k v) m es) = map_of (rev es @ m)"
proof (induction es arbitrary: m)
  case Nil
  then show ?case by simp
next
  case (Cons e es)
  obtain k v where e: "e = (k, v)" by (cases e)
  have d: "distinct (map fst (mapSet m k v))" using Cons.prems by (rule distinct_mapSet)
  have "map_of (rev es @ mapSet m k v) = map_of (rev es @ [(k, v)] @ m)"
    by (simp add: map_of_mapSet map_add_def fun_eq_iff split: option.splits)
  then show ?case using Cons.IH[OF d] by (simp add: e)
qed

lemma newMap_props:
  "distinct (map fst (newMap es))" "map_of (newMap es) = map_of (rev es)"
  using foldl_mapSet[of "[]" es] by (simp_all add: newMap_def)

lemma map_of_rev_keyed:
  "map_of (rev (map (\<lambda>s. (f s, s)) xs)) k =
     (if \<exists>x \<in> set xs. f x = k then Some (last (filter (\<lambda>x. f x = k) xs)) else None)"
proof (induction xs rule: rev_induct)
  case Nil
  then show ?case by simp
next
  case (snoc x xs)
  then show ?case by auto
qed

lemma newMap_keyed:
  assumes "(k, v) \<in> set (newMap (map (\<lambda>s. (f s, s)) xs))"
  shows "(\<exists>x \<in> set xs. f x = k) \<and> v = last (filter (\<lambda>x. f x = k) xs)"
proof -
  have "map_of (newMap (map (\<lambda>s. (f s, s)) xs)) k = Some v"
    using assms newMap_props(1) by (rule map_of_is_SomeI[rotated])
  then have "map_of (rev (map (\<lambda>s. (f s, s)) xs)) k = Some v"
    by (simp add: newMap_props(2))
  then show ?thesis
    by (simp add: map_of_rev_keyed split: if_splits)
qed

lemma keys_newMap: "set (map fst (newMap es)) = set (map fst es)"
proof -
  have "dom (map_of (newMap es)) = dom (map_of (rev es))" by (simp add: newMap_props(2))
  then show ?thesis by (simp add: dom_map_of_conv_image_fst)
qed

lemma last_filter_key:
  assumes "\<exists>x \<in> set xs. f x = k"
  shows "f (last (filter (\<lambda>x. f x = k) xs)) = k \<and> last (filter (\<lambda>x. f x = k) xs) \<in> set xs"
proof -
  have ne: "filter (\<lambda>x. f x = k) xs \<noteq> []" using assms by (simp add: filter_empty_conv)
  then have "last (filter (\<lambda>x. f x = k) xs) \<in> set (filter (\<lambda>x. f x = k) xs)" by (rule last_in_set)
  then show ?thesis by simp
qed

lemma uniqueSources_props:
  "distinct (map src_uri (uniqueSources srcs))"
  "set (map src_uri (uniqueSources srcs)) = set (map src_uri srcs)"
  "\<forall>s \<in> set (uniqueSources srcs). s \<in> set srcs \<and> s = last (filter (\<lambda>x. src_uri x = src_uri s) srcs)"
proof -
  let ?m = "newMap (map (\<lambda>s. (src_uri s, s)) srcs)"
  have entry: "k = src_uri v \<and> v \<in> set srcs \<and> v = last (filter (\<lambda>x. src_uri x = src_uri v) srcs)"
    if "(k, v) \<in> set ?m" for k v
  proof -
    from newMap_keyed[OF that] have ex: "\<exists>x \<in> set srcs. src_uri x = k"
      and v: "v = last (filter (\<lambda>x. src_uri x = k) srcs)" by simp_all
    from last_filter_key[OF ex] v have "src_uri v = k" "v \<in> set srcs" by simp_all
    with v show ?thesis by simp
  qed
  have same: "map src_uri (map snd ?m) = map fst ?m"
    using entry by (auto simp: map_eq_conv)
  show "distinct (map src_uri (uniqueSources srcs))"
    using newMap_props(1)[of "map (\<lambda>s. (src_uri s, s)) srcs"] by (simp add: uniqueSources_def same del: map_map)
  have "set (map fst ?m) = set (map fst (map (\<lambda>s. (src_uri s, s)) srcs))"
    by (rule keys_newMap)
  also have "\<dots> = set (map src_uri srcs)"
    by (simp add: comp_def)
  finally have "set (map fst ?m) = set (map src_uri srcs)" .
  then show "set (map src_uri (uniqueSources srcs)) = set (map src_uri srcs)"
    by (simp add: uniqueSources_def same del: map_map)
  show "\<forall>s \<in> set (uniqueSources srcs). s \<in> set srcs \<and> s = last (filter (\<lambda>x. src_uri x = src_uri s) srcs)"
  proof
    fix s assume "s \<in> set (uniqueSources srcs)"
    then obtain k where "(k, s) \<in> set ?m" by (auto simp: uniqueSources_def)
    from entry[OF this] show "s \<in> set srcs \<and> s = last (filter (\<lambda>x. src_uri x = src_uri s) srcs)"
      by simp
  qed
qed

lemma replace_streamed:
  "updateSessionMessages sid (Updater (map (\<lambda>msg. if m_id msg = bid then final else msg))) (streamed sid bid t ss)
   = updateSessionMessages sid (Updater (map (\<lambda>msg. if m_id msg = bid then final else msg))) ss"
  by (simp add: streamed_def updateSessionMessages_compose replace_after_streaming)

lemma finishReply_completed:
  assumes "rs_error stream = None"
  shows "sr_sessions (finishReply tips lang sid bid (Inr stream) count ss) =
           updateSessionMessages sid
             (Updater (map (\<lambda>msg. if m_id msg = bid
                                  then finalBotMessage bid (accumulated (rs_chunks stream)) (collected (rs_chunks stream))
                                  else msg))) ss"
    and "sr_snapshots (finishReply tips lang sid bid (Inr stream) count ss) =
           map (\<lambda>n. streamed sid bid (accumulated (take (Suc n) (rs_chunks stream))) ss)
               [0 ..< length (rs_chunks stream)]"
proof -
  let ?chunks = "rs_chunks stream"
  let ?snaps = "map (\<lambda>n. streamed sid bid (accumulated (take (Suc n) ?chunks)) ss) [0 ..< length ?chunks]"
  have latest: "(if ?snaps = [] then ss else last ?snaps) = ss \<or>
                (if ?snaps = [] then ss else last ?snaps) = streamed sid bid (accumulated ?chunks) ss"
    by (cases "?chunks = []") (simp_all add: last_map del: upt_Suc)
  show "sr_snapshots (finishReply tips lang sid bid (Inr stream) count ss) = ?snaps"
    using assms by (simp add: finishReply_def streamLoop_closed Let_def del: upt_Suc)
  have "sr_sessions (finishReply tips lang sid bid (Inr stream) count ss) =
      updateSessionMessages sid
        (Updater (map (\<lambda>msg. if m_id msg = bid
                             then finalBotMessage bid (accumulated ?chunks) (collected ?chunks) else msg)))
        (if ?snaps = [] then ss else last ?snaps)"
    using assms by (simp add: finishReply_def streamLoop_closed Let_def del: upt_Suc)
  then show "sr_sessions (finishReply tips lang sid bid (Inr stream) count ss) =
           updateSessionMessages sid
             (Updater (map (\<lambda>msg. if m_id msg = bid
                                  then finalBotMessage bid (accumulated ?chunks) (collected ?chunks)
                                  else msg))) ss"
    using latest by (auto simp: replace_streamed simp del: upt_Suc)
qed

text \<open>
  C3 (as amended).  A streamed reply that completes without error.  With \<open>full\<close> the
  accumulated text of the chunks and \<open>cited\<close> the citations collected from them, there is
  exactly one list of spans of \<open>full\<close> such that every span is image markdown (\<open>![\<close>, the
  shortest alternative text, \<open>](\<close>, the shortest address, \<open>)\<close>, no line terminator
  inside), the spans follow each other without overlap, and no image markdown of \<open>full\<close>
  starts at a position outside the spans.  The session list at the end is the original
  one in which every message of the active session with the placeholder's id is replaced
  by the final message: its text is \<open>full\<close> without these spans, trimmed; its sources are
  \<open>cited\<close> deduplicated; its loading flag is false.  The deduplicated list has no two
  entries with the same uri, has the same uris as \<open>cited\<close>, and each entry is the last
  citation of \<open>cited\<close> with its uri.  There is one intermediate state per chunk; in it only
  the text (the text accumulated so far) and the loading flag (true) of the placeholder
  are updated, so the sources of every message are those it had before the stream: the
  citations are attached at completion only.
\<close>

theorem stream_completion:
  assumes "rs_error stream = None"
      and "res = finishReply tips lang sid bid (Inr stream) count ss"
      and "full = accumulated (rs_chunks stream)"
      and "cited = collected (rs_chunks stream)"
  shows "\<exists>spans final.
           imageSpans full spans \<and>
           (\<forall>other. imageSpans full other \<longrightarrow> other = spans) \<and>
           final = (mk_message bid (trim (outside full spans)) Bot)
                     \<lparr> m_sources := Some (uniqueSources cited), m_isLoading := Some False \<rparr> \<and>
           sr_sessions res =
             updateSessionMessages sid (Updater (map (\<lambda>msg. if m_id msg = bid then final else msg))) ss \<and>
           (\<forall>i k. i < length ss \<and> s_id (ss ! i) = sid \<and> k < length (s_messages (ss ! i)) \<and>
                  m_id (s_messages (ss ! i) ! k) = bid \<longrightarrow>
                  s_messages (sr_sessions res ! i) ! k = final) \<and>
           distinct (map src_uri (uniqueSources cited)) \<and>
           set (map src_uri (uniqueSources cited)) = set (map src_uri cited) \<and>
           (\<forall>s \<in> set (uniqueSources cited).
              s \<in> set cited \<and> s = last (filter (\<lambda>x. src_uri x = src_uri s) cited)) \<and>
           length (sr_snapshots res) = length (rs_chunks stream) \<and>
           (\<forall>n < length (rs_chunks stream).
              sr_snapshots res ! n =
                updateSessionMessages sid
                  (Updater (map (\<lambda>msg. if m_id msg = bid
                                       then msg\<lparr> m_text := accumulated (take (Suc n) (rs_chunks stream)),
                                                m_isLoading := Some True \<rparr>
                                       else msg))) ss) \<and>
           (\<forall>n i k. n < length (rs_chunks stream) \<and> i < length ss \<and> k < length (s_messages (ss ! i)) \<longrightarrow>
              m_sources (s_messages (sr_snapshots res ! n ! i) ! k) = m_sources (s_messages (ss ! i) ! k))"
proof -
  define spans where "spans = scanSpans False imageMarkdownRegex full 0"
  define final where "final = (mk_message bid (trim (outside full spans)) Bot)
                     \<lparr> m_sources := Some (uniqueSources cited), m_isLoading := Some False \<rparr>"
  have sp: "imageSpans full spans"
    unfolding spans_def by (rule imageSpans_scan)
  have un: "\<forall>other. imageSpans full other \<longrightarrow> other = spans"
    unfolding spans_def using imageSpans_unique by blast
  have fd: "final = (mk_message bid (trim (outside full spans)) Bot)
                     \<lparr> m_sources := Some (uniqueSources cited), m_isLoading := Some False \<rparr>"
    by (rule final_def)
  have fin: "final = finalBotMessage bid (accumulated (rs_chunks stream)) (collected (rs_chunks stream))"
    unfolding final_def spans_def removeMatches_outside[symmetric]
    using assms(3,4) by (simp add: finalBotMessage_def cleanedText_def del: removeMatches.simps)
  have s1: "sr_sessions res =
           updateSessionMessages sid (Updater (map (\<lambda>msg. if m_id msg = bid then final else msg))) ss"
    unfolding assms(2) fin by (rule finishReply_completed(1)[OF assms(1)])
  have s2: "\<forall>i k. i < length ss \<and> s_id (ss ! i) = sid \<and> k < length (s_messages (ss ! i)) \<and>
                m_id (s_messages (ss ! i) ! k) = bid \<longrightarrow>
                s_messages (sr_sessions res ! i) ! k = final"
    by (simp add: s1 updateSessionMessages_nth applyUpdate_def)
  have snaps: "sr_snapshots res =
           map (\<lambda>n. streamed sid bid (accumulated (take (Suc n) (rs_chunks stream))) ss)
               [0 ..< length (rs_chunks stream)]"
    by (simp only: assms(2) finishReply_completed(2)[OF assms(1)])
  have s3: "length (sr_snapshots res) = length (rs_chunks stream)"
    by (simp add: snaps del: upt_Suc)
  have nth: "sr_snapshots res ! n = streamed sid bid (accumulated (take (Suc n) (rs_chunks stream))) ss"
    if "n < length (rs_chunks stream)" for n
    using that by (simp add: snaps del: upt_Suc)
  have s4: "\<forall>n < length (rs_chunks stream).
            sr_snapshots res ! n =
              updateSessionMessages sid
                (Updater (map (\<lambda>msg. if m_id msg = bid
                                     then msg\<lparr> m_text := accumulated (take (Suc n) (rs_chunks stream)),
                                              m_isLoading := Some True \<rparr>
                                     else msg))) ss"
    using nth by (simp add: streamed_def)
  have s5: "\<forall>n i k. n < length (rs_chunks stream) \<and> i < length ss \<and> k < length (s_messages (ss ! i)) \<longrightarrow>
            m_sources (s_messages (sr_snapshots res ! n ! i) ! k) = m_sources (s_messages (ss ! i) ! k)"
    using nth by (simp add: streamed_def updateSessionMessages_nth applyUpdate_def)
  note d = uniqueSources_props[of cited]
  show ?thesis
    by (rule exI[of _ spans], rule exI[of _ final])
       (intro conjI sp un fd s1 s2 d s3 s4 s5)
qed

lemma cleaned_example:
  "trim (removeMatches False imageMarkdownRegex (js '' See ![pic](p.png) the bay. '') 0) = js ''See  the bay.''"
  by (simp add: js_def imageMarkdownRegex_def litMatches_def canonicalize_def runLength_def
        inClass_def isLineTerminator_def trim_def isWhiteSpace_def)

theorem stream_completion_witness:
  "sr_sessions (finishReply (\<lambda>k. None) (js ''en-US'') (js ''s1'') 8
      (Inr \<lparr> rs_chunks =
          [\<lparr> ch_text = Some (js '' See ![pic](p.png)''),
             ch_groundingChunks = Some [\<lparr> gc_web = Some \<lparr> gw_uri = Some (js ''u1''), gw_title = Some (js ''A'') \<rparr>,
                                          gc_placeAnswerSources = None \<rparr>] \<rparr>,
           \<lparr> ch_text = Some (js '' the bay. ''),
             ch_groundingChunks = Some [\<lparr> gc_web = None,
                                          gc_placeAnswerSources =
                                            Some [\<lparr> ps_uri = Some (js ''u2''), ps_displayName = Some (js ''Bay'') \<rparr>,
                                                  \<lparr> ps_uri = Some (js ''u1''), ps_displayName = Some (js ''B'') \<rparr>] \<rparr>] \<rparr>],
          rs_error = None \<rparr>) 1
      [\<lparr> s_id = js ''s1'', s_title = js ''t'',
         s_messages = [mk_message 7 (js ''hi'') User, (mk_message 8 [] Bot)\<lparr> m_isLoading := Some True \<rparr>],
         s_languageCode = js ''en-US'' \<rparr>])
   = [\<lparr> s_id = js ''s1'', s_title = js ''t'',
        s_messages = [mk_message 7 (js ''hi'') User,
                      (mk_message 8 (js ''See  the bay.'') Bot)
                        \<lparr> m_sources := Some [\<lparr> src_uri = js ''u1'', src_title = Some (js ''B'') \<rparr>,
                                               \<lparr> src_uri = js ''u2'', src_title = Some (js ''Bay'') \<rparr>],
                          m_isLoading := Some False \<rparr>],
        s_languageCode = js ''en-US'' \<rparr>]"
proof -
  let ?c1 = "\<lparr> ch_text = Some (js '' See ![pic](p.png)''),
             ch_groundingChunks = Some [\<lparr> gc_web = Some \<lparr> gw_uri = Some (js ''u1''), gw_title = Some (js ''A'') \<rparr>,
                                          gc_placeAnswerSources = None \<rparr>] \<rparr>"
  let ?c2 = "\<lparr> ch_text = Some (js '' the bay. ''),
             ch_groundingChunks = Some [\<lparr> gc_web = None,
                                          gc_placeAnswerSources =
                                            Some [\<lparr> ps_uri = Some (js ''u2''), ps_displayName = Some (js ''Bay'') \<rparr>,
                                                  \<lparr> ps_uri = Some (js ''u1''), ps_displayName = Some (js ''B'') \<rparr>] \<rparr>] \<rparr>"
  let ?stream = "\<lparr> rs_chunks = [?c1, ?c2], rs_error = None \<rparr>"
  let ?ss = "[\<lparr> s_id = js ''s1'', s_title = js ''t'',
         s_messages = [mk_message 7 (js ''hi'') User, (mk_message 8 [] Bot)\<lparr> m_isLoading := Some True \<rparr>],
         s_languageCode = js ''en-US'' \<rparr>]"
  have acc: "accumulated (rs_chunks ?stream) = js '' See ![pic](p.png) the bay. ''"
    by (simp add: accumulated_def chunkText_def js_def)
  have col: "uniqueSources (collected (rs_chunks ?stream)) =
      [\<lparr> src_uri = js ''u1'', src_title = Some (js ''B'') \<rparr>,
       \<lparr> src_uri = js ''u2'', src_title = Some (js ''Bay'') \<rparr>]"
    by (simp add: collected_def webChunks_def citations_def truthyStr_def uniqueSources_def newMap_def js_def)
  have ok: "rs_error ?stream = None" by simp
  from stream_completion[where stream = ?stream and tips = "\<lambda>k. None" and lang = "js ''en-US''"
         and sid = "js ''s1''" and bid = 8 and count = 1 and ss = ?ss, OF ok refl refl refl]
  obtain spans final where
    sp: "imageSpans (accumulated (rs_chunks ?stream)) spans" and
    fin: "final = (mk_message 8 (trim (outside (accumulated (rs_chunks ?stream)) spans)) Bot)
             \<lparr> m_sources := Some (uniqueSources (collected (rs_chunks ?stream))), m_isLoading := Some False \<rparr>" and
    res: "sr_sessions (finishReply (\<lambda>k. None) (js ''en-US'') (js ''s1'') 8 (Inr ?stream) 1 ?ss) =
      updateSessionMessages (js ''s1'') (Updater (map (\<lambda>msg. if m_id msg = 8 then final else msg))) ?ss"
    by blast
  have "outside (accumulated (rs_chunks ?stream)) spans
        = removeMatches False imageMarkdownRegex (accumulated (rs_chunks ?stream)) 0"
    unfolding imageSpans_unique[OF sp] by (rule removeMatches_outside[symmetric])
  then have cleaned: "trim (outside (accumulated (rs_chunks ?stream)) spans) = js ''See  the bay.''"
    unfolding acc by (simp only: cleaned_example)
  show ?thesis
    unfolding res fin cleaned col
    by (simp add: updateSessionMessages_def applyUpdate_def mk_message_def)
qed

text \<open>
  C3 as stated fails: the final text can still contain image markdown.  The pass removes
  the first match and goes on behind it, so markdown that only arises by joining the text
  around a removed match stays: from \<open>!![p](q)[r](s)\<close> the match \<open>![p](q)\<close> is removed and
  the final text is \<open>![r](s)\<close>, which the pattern matches.
\<close>

theorem image_markdown_remains:
  "m_text (s_messages (sr_sessions (finishReply (\<lambda>k. None) (js ''en-US'') (js ''s1'') 8
      (Inr \<lparr> rs_chunks = [\<lparr> ch_text = Some (js ''!![p](q)[r](s)''), ch_groundingChunks = None \<rparr>],
             rs_error = None \<rparr>) 1
      [\<lparr> s_id = js ''s1'', s_title = js ''t'',
         s_messages = [mk_message 7 (js ''hi'') User, (mk_message 8 [] Bot)\<lparr> m_isLoading := Some True \<rparr>],
         s_languageCode = js ''en-US'' \<rparr>]) ! 0) ! 1) = js ''![r](s)'' \<and>
   test False imageMarkdownRegex (js ''![r](s)'') \<and>
   imageMarkdownAt (js ''![r](s)'') 0 3 6"
proof -
  let ?stream = "\<lparr> rs_chunks = [\<lparr> ch_text = Some (js ''!![p](q)[r](s)''), ch_groundingChunks = None \<rparr>],
             rs_error = None \<rparr>"
  let ?ss = "[\<lparr> s_id = js ''s1'', s_title = js ''t'',
         s_messages = [mk_message 7 (js ''hi'') User, (mk_message 8 [] Bot)\<lparr> m_isLoading := Some True \<rparr>],
         s_languageCode = js ''en-US'' \<rparr>]"
  have acc: "accumulated (rs_chunks ?stream) = js ''!![p](q)[r](s)''"
    by (simp add: accumulated_def chunkText_def js_def)
  have cl: "cleanedText (js ''!![p](q)[r](s)'') = js ''![r](s)''"
    by (simp add: cleanedText_def js_def imageMarkdownRegex_def litMatches_def canonicalize_def runLength_def
          inClass_def isLineTerminator_def trim_def isWhiteSpace_def)
  have ok: "rs_error ?stream = None" by simp
  have "sr_sessions (finishReply (\<lambda>k. None) (js ''en-US'') (js ''s1'') 8 (Inr ?stream) 1 ?ss) =
      updateSessionMessages (js ''s1'')
        (Updater (map (\<lambda>msg. if m_id msg = 8
            then finalBotMessage 8 (accumulated (rs_chunks ?stream)) (collected (rs_chunks ?stream))
            else msg))) ?ss"
    by (rule finishReply_completed(1)[OF ok])
  then have 1: "m_text (s_messages (sr_sessions (finishReply (\<lambda>k. None) (js ''en-US'') (js ''s1'') 8
        (Inr ?stream) 1 ?ss) ! 0) ! 1) = js ''![r](s)''"
    unfolding acc
    by (simp add: finalBotMessage_def cl updateSessionMessages_def applyUpdate_def mk_message_def)
  have 2: "test False imageMarkdownRegex (js ''![r](s)'')"
    by (simp add: test_def exec_def js_def imageMarkdownRegex_def litMatches_def canonicalize_def
          runLength_def inClass_def isLineTerminator_def)
  have 3: "imageMarkdownAt (js ''![r](s)'') 0 3 6"
    by (simp add: imageMarkdownAt_def js_def isLineTerminator_def atLeastLessThan_def lessThan_def atLeast_def nth_Cons')
  from 1 2 3 show ?thesis by blast
qed

subsection \<open>The intent router\<close>

lemma send_language:
  assumes "accepted pl st sid cur" and "languageSwitchTarget c (p_text pl) cur = Some target"
  shows "handleSendMessage c now1 now2 pl st =
           returned (LanguageSwitch target)
             (st\<lparr> isBotSpeaking := False,
                  sessions := switchLanguage sid now1 now2 (p_text pl) target (sessions st) \<rparr>) [] None"
  using assms by (auto simp: accepted_def activeIn_def handleSendMessage_def Let_def truthyStr_def)

lemma send_style:
  assumes "accepted pl st sid cur" and "languageSwitchTarget c (p_text pl) cur = None"
      and "pendingImagePrompt st = Some pending" and "pending \<noteq> []"
      and "p_text pl \<in> set (ART_STYLES c)"
  shows "handleSendMessage c now1 now2 pl st =
           returned (StyleSelection pending (p_text pl))
             (st\<lparr> isBotSpeaking := False,
                  sessions := updateSessionMessages sid
                     (Updater (\<lambda>prev. prev @ [mk_message now2 (p_text pl) User,
                                               (mk_message (now1 + 1) [] Bot)\<lparr> m_isLoading := Some True \<rparr>]))
                     (sessions st),
                  pendingImagePrompt := None \<rparr>)
             [GenerateImage (js ''A '' @ toLowerCase (p_text pl) @ js '' of: '' @ pending)]
             (Some (ImageGenerationCall (now1 + 1)))"
  using assms
  by (auto simp: accepted_def activeIn_def handleSendMessage_def handleImageGeneration_def Let_def truthyStr_def)

lemma send_edit:
  assumes "accepted pl st sid cur" and "languageSwitchTarget c (p_text pl) cur = None"
      and "\<not> (truthyStr (pendingImagePrompt st) \<and> p_text pl \<in> set (ART_STYLES c))"
      and "length (p_files pl) = 1" and "startsWith (f_mimeType (p_files pl ! 0)) (js ''image/'')"
      and "trim (p_text pl) \<noteq> []"
  shows "handleSendMessage c now1 now2 pl st =
           returned (ImageEdit (p_text pl) (p_files pl ! 0))
             ((dropPending (st\<lparr> isBotSpeaking := False \<rparr>))
                \<lparr> sessions := updateSessionMessages sid
                     (Updater (appendTurn
                        ((mk_message now1 (js ''(Edit Prompt: '' @ p_text pl @ js '')'') User)
                           \<lparr> m_files := Some [p_files pl ! 0] \<rparr>)
                        ((mk_message (now2 + 1) [] Bot)\<lparr> m_isLoading := Some True \<rparr>)))
                     (sessions st) \<rparr>)
             [EditImage (p_files pl ! 0) (p_text pl)]
             (Some (ImageEditCall (now2 + 1)))"
  using assms
  by (auto simp: accepted_def activeIn_def handleSendMessage_def handleImageEdit_def Let_def truthyStr_def dropPending_def)

lemma send_request:
  assumes "accepted pl st sid cur" and "languageSwitchTarget c (p_text pl) cur = None"
      and "\<not> (truthyStr (pendingImagePrompt st) \<and> p_text pl \<in> set (ART_STYLES c))"
      and "p_files pl = []"
      and "test True imageGenRegex (trim (p_text pl))"
      and "\<not> test True imageGenBlockRegex (trim (p_text pl))"
  shows "handleSendMessage c now1 now2 pl st =
           returned ImageRequest
             (requestImage c sid now1 now2 (p_text pl) (dropPending (st\<lparr> isBotSpeaking := False \<rparr>))) [] None"
  using assms
  by (auto simp: accepted_def activeIn_def handleSendMessage_def Let_def truthyStr_def dropPending_def)

lemma send_trip:
  assumes "accepted pl st sid cur" and "languageSwitchTarget c (p_text pl) cur = None"
      and "\<not> (truthyStr (pendingImagePrompt st) \<and> p_text pl \<in> set (ART_STYLES c))"
      and "p_files pl = []"
      and "\<not> (test True imageGenRegex (trim (p_text pl)) \<and> \<not> test True imageGenBlockRegex (trim (p_text pl)))"
      and "tripPlanVariants (LANGUAGES c) = Inr variants"
      and "trim (toLowerCase (p_text pl)) \<in> set variants"
  shows "handleSendMessage c now1 now2 pl st =
           returned TripPlan
             (tripPlanReply c sid now1 now2 (p_text pl) cur (dropPending (st\<lparr> isBotSpeaking := False \<rparr>))) [] None"
  using assms
  by (auto simp: accepted_def activeIn_def handleSendMessage_def Let_def truthyStr_def dropPending_def)

lemma send_standard:
  assumes "accepted pl st sid cur" and "languageSwitchTarget c (p_text pl) cur = None"
      and "\<not> (truthyStr (pendingImagePrompt st) \<and> p_text pl \<in> set (ART_STYLES c))"
      and "\<not> (length (p_files pl) = 1 \<and> startsWith (f_mimeType (p_files pl ! 0)) (js ''image/'')
              \<and> trim (p_text pl) \<noteq> [])"
      and "\<not> (test True imageGenRegex (trim (p_text pl)) \<and> \<not> test True imageGenBlockRegex (trim (p_text pl))
              \<and> p_files pl = [])"
      and "tripPlanVariants (LANGUAGES c) = Inr variants"
      and "\<not> (trim (toLowerCase (p_text pl)) \<in> set variants \<and> p_files pl = [])"
  shows "handleSendMessage c now1 now2 pl st =
           standardMessage sid now1 now2 pl cur (dropPending (st\<lparr> isBotSpeaking := False \<rparr>))"
  using assms
  by (auto simp: accepted_def activeIn_def handleSendMessage_def Let_def truthyStr_def dropPending_def)

lemma exec_blank: "exec ic (Seq (WordBoundary # rs)) [] = None"
  by (simp add: exec_def atWordBoundary_def)

lemma language_needs_text:
  assumes "languageSwitchTarget c text cur = Some target"
  shows "trim text \<noteq> []"
proof
  assume "trim text = []"
  then have "languageSwitchTarget c text cur = None"
    by (simp add: languageSwitchTarget_def langChangeRegex_def exec_blank)
  with assms show False by simp
qed

lemma languageSwitchTarget_Some:
  assumes "languageSwitchTarget c text cur = Some target"
  shows "target \<in> set (LANGUAGES c) \<and> l_code target \<noteq> s_languageCode cur"
  using assms
  by (auto simp: languageSwitchTarget_def find_Some_iff in_set_conv_nth
           split: option.splits list.splits if_splits)

lemma request_needs_text:
  assumes "test True imageGenRegex (trim text)"
  shows "trim text \<noteq> []"
proof
  assume "trim text = []"
  then have "\<not> test True imageGenRegex (trim text)"
    by (simp add: test_def imageGenRegex_def exec_blank)
  with assms show False by simp
qed

lemma sessions_returned [simp]:
  "r_state (returned a st effs aw) = st" "r_effects (returned a st effs aw) = SpeechCancel # effs"
  "r_action (returned a st effs aw) = a" "r_awaited (returned a st effs aw) = aw"
  "r_raised (returned a st effs aw) = None"
  by (simp_all add: returned_def)

lemma dropPending_fields [simp]:
  "sessions (dropPending st) = sessions st" "activeSessionId (dropPending st) = activeSessionId st"
  "chatSessionRef (dropPending st) = chatSessionRef st" "userLocation (dropPending st) = userLocation st"
  by (simp_all add: dropPending_def)

lemma dropPending_Some:
  "pendingImagePrompt st = Some p \<Longrightarrow> p \<noteq> [] \<Longrightarrow> pendingImagePrompt (dropPending st) = None"
  by (simp add: dropPending_def truthyStr_def)

lemma send_crash:
  assumes "accepted pl st sid cur" and "languageSwitchTarget c (p_text pl) cur = None"
      and "\<not> (truthyStr (pendingImagePrompt st) \<and> p_text pl \<in> set (ART_STYLES c))"
      and "\<not> (length (p_files pl) = 1 \<and> startsWith (f_mimeType (p_files pl ! 0)) (js ''image/'')
              \<and> trim (p_text pl) \<noteq> [])"
      and "\<not> (test True imageGenRegex (trim (p_text pl)) \<and> \<not> test True imageGenBlockRegex (trim (p_text pl))
              \<and> p_files pl = [])"
      and "tripPlanVariants (LANGUAGES c) = Inl e"
  shows "handleSendMessage c now1 now2 pl st =
           \<lparr> r_state = dropPending (st\<lparr> isBotSpeaking := False \<rparr>), r_effects = [SpeechCancel],
             r_action = Crashed, r_awaited = None, r_raised = Some e \<rparr>"
  using assms
  by (auto simp: accepted_def activeIn_def handleSendMessage_def Let_def truthyStr_def dropPending_def)

lemma standardMessage_fields:
  "r_action (standardMessage sid now1 now2 pl cur st) = StandardMessage"
  "pendingImagePrompt (r_state (standardMessage sid now1 now2 pl cur st)) = pendingImagePrompt st"
  "r_raised (standardMessage sid now1 now2 pl cur st) = None"
  by (simp_all add: standardMessage_def Let_def split: option.splits)

lemma content_without_parts:
  "imageOutcome bid \<lparr> ir_blockReason = None, ir_content = Some \<lparr> cc_parts = None \<rparr>, ir_text = t \<rparr>
     = Inl (Platform TypeError)"
  "imageFailureText (Platform TypeError)
     = js ''Sorry, I couldn't generate the image. Please try a different prompt.''"
  by (simp_all add: imageOutcome_def imagePart_def imageFailureText_def truthyStr_def)

lemma settle_keeps_pending:
  "pendingImagePrompt (handleImageGeneration_settle sid bid outcome st) = pendingImagePrompt st"
  by (simp add: handleImageGeneration_settle_def split: sum.splits)

lemma pending_after_other:
  assumes "accepted pl st sid cur" and "pendingImagePrompt st = Some pending" and "pending \<noteq> []"
      and "languageSwitchTarget c (p_text pl) cur = None"
      and "p_text pl \<notin> set (ART_STYLES c)"
  shows "pendingImagePrompt (r_state (handleSendMessage c now1 now2 pl st)) =
           (if r_action (handleSendMessage c now1 now2 pl st) = ImageRequest then Some (p_text pl) else None)"
proof -
  let ?st = "st\<lparr> isBotSpeaking := False \<rparr>"
  have nostyle: "\<not> (truthyStr (pendingImagePrompt st) \<and> p_text pl \<in> set (ART_STYLES c))"
    using assms(5) by simp
  have dp: "pendingImagePrompt (dropPending ?st) = None"
    using assms(2,3) by (simp add: dropPending_def truthyStr_def)
  let ?edit = "length (p_files pl) = 1 \<and> startsWith (f_mimeType (p_files pl ! 0)) (js ''image/'')
              \<and> trim (p_text pl) \<noteq> []"
  let ?req = "test True imageGenRegex (trim (p_text pl)) \<and> \<not> test True imageGenBlockRegex (trim (p_text pl))
              \<and> p_files pl = []"
  show ?thesis
  proof (cases ?edit)
    case True
    then show ?thesis
      using send_edit[OF assms(1,4) nostyle, of now1 now2] dp by simp
  next
    case noedit: False
    show ?thesis
    proof (cases ?req)
      case True
      then show ?thesis
        using send_request[OF assms(1,4) nostyle, of now1 now2] by (simp add: requestImage_def Let_def)
    next
      case noreq: False
      show ?thesis
      proof (cases "tripPlanVariants (LANGUAGES c)")
        case (Inl e)
        show ?thesis
          using send_crash[OF assms(1,4) nostyle noedit noreq Inl, of now1 now2] dp by simp
      next
        case (Inr variants)
        show ?thesis
        proof (cases "trim (toLowerCase (p_text pl)) \<in> set variants \<and> p_files pl = []")
          case True
          then show ?thesis
            using send_trip[OF assms(1,4) nostyle _ _ Inr, of now1 now2] noreq dp
            by (simp add: tripPlanReply_def Let_def)
        next
          case False
          then show ?thesis
            using send_standard[OF assms(1,4) nostyle noedit noreq Inr, of now1 now2] dp
            by (simp add: standardMessage_fields)
        qed
      qed
    qed
  qed
qed

lemma loading_update:
  assumes "\<And>prev. set (filter (\<lambda>m. m_isLoading m = Some True) (f prev))
                  \<subseteq> set (filter (\<lambda>m. m_isLoading m = Some True) prev)"
  shows "set (loadingMessages (updateSessionMessages sid (Updater f) ss)) \<subseteq> set (loadingMessages ss)"
proof (induction ss)
  case Nil
  then show ?case by (simp add: updateSessionMessages_def)
next
  case (Cons s ss)
  have "set (filter (\<lambda>m. m_isLoading m = Some True) (f (s_messages s)))
          \<subseteq> set (filter (\<lambda>m. m_isLoading m = Some True) (s_messages s))"
    by (rule assms)
  then show ?case
    using Cons.IH by (auto simp: loadingMessages_def updateSessionMessages_def applyUpdate_def)
qed

lemma loading_switchLanguage:
  "set (loadingMessages (switchLanguage sid now1 now2 text target ss)) \<subseteq> set (loadingMessages ss)"
proof -
  have "loadingMessages (switchLanguage sid now1 now2 text target ss) =
        loadingMessages (updateSessionMessages sid
          (Updater (\<lambda>prev. filter (\<lambda>m. \<not> truthy (m_isWelcome m)) prev @
             [mk_message now1 text User,
              mk_message (now2 + 1) (js ''Certainly! I will now respond in '' @ l_name target @ js ''.'') Bot]))
          ss)"
    by (induction ss)
       (simp_all add: switchLanguage_def Let_def loadingMessages_def updateSessionMessages_def applyUpdate_def)
  also have "set \<dots> \<subseteq> set (loadingMessages ss)"
    by (rule loading_update) (auto simp: mk_message_def)
  finally show ?thesis .
qed

lemma loading_requestImage:
  "set (loadingMessages (sessions (requestImage c sid now1 now2 text st))) \<subseteq> set (loadingMessages (sessions st))"
  unfolding requestImage_def Let_def
  by (simp, rule loading_update) (auto simp: mk_message_def)

lemma loading_tripPlanReply:
  "set (loadingMessages (sessions (tripPlanReply c sid now1 now2 text cur st))) \<subseteq> set (loadingMessages (sessions st))"
  unfolding tripPlanReply_def Let_def
  by (simp, rule loading_update) (auto simp: mk_message_def appendTurn_def)

lemmas rx_eval = test_def exec_def js_def litMatches_def canonicalize_def atWordBoundary_def isWordChar_def
  runLength_def inClass_def isWhiteSpace_def isLineTerminator_def trim_def toLowerCase_def lowerUnit_def

lemma draw_is_request: "test True imageGenRegex (trim (js ''draw a cat''))"
  by (simp add: imageGenRegex_def rx_eval)

lemma draw_is_not_blocked: "\<not> test True imageGenBlockRegex (trim (js ''draw a cat''))"
  by (simp add: imageGenBlockRegex_def rx_eval)

lemma draw_is_no_switch:
  "languageSwitchTarget sampleConstants (js ''draw a cat'') cur = None"
  by (simp add: languageSwitchTarget_def sampleConstants_def langChangeRegex_def rx_eval)

lemma hindi_switch:
  "s_languageCode cur = js ''en-US'' \<Longrightarrow>
   languageSwitchTarget sampleConstants (js ''switch to Hindi'') cur =
     Some \<lparr> l_code = js ''hi-IN'', l_name = js ''Hindi'', l_nativeName = js ''Hindi'' \<rparr>"
  by (simp add: languageSwitchTarget_def sampleConstants_def langChangeRegex_def rx_eval)

lemma watercolor_no_switch:
  "languageSwitchTarget sampleConstants (js ''Watercolor'') cur = None"
  by (simp add: languageSwitchTarget_def sampleConstants_def langChangeRegex_def rx_eval)


lemma sample_active:
  "activeIn (sampleState pending) (js ''s1'')
     \<lparr> s_id = js ''s1'', s_title = js ''hello'', s_messages = [mk_message 1 (js ''hello'') User],
       s_languageCode = js ''en-US'' \<rparr>"
  by (simp add: activeIn_def sampleState_def js_def)

lemma sample_accepted:
  "trim (js t) \<noteq> [] \<Longrightarrow>
   accepted (say t) (sampleState pending) (js ''s1'')
     \<lparr> s_id = js ''s1'', s_title = js ''hello'', s_messages = [mk_message 1 (js ''hello'') User],
       s_languageCode = js ''en-US'' \<rparr>"
  using sample_active[of pending] by (simp add: accepted_def say_def)

lemma sample_variants:
  "tripPlanVariants (LANGUAGES sampleConstants) =
     Inr [js ''trip plan'', [2351, 2366, 2340, 2381, 2352, 2366, 32, 2351, 2379, 2332, 2344, 2366]]"
  by (simp add: sampleConstants_def initialSuggestions_def js_def toLowerCase_def lowerUnit_def)

lemma switchLanguage_nth:
  assumes "i < length ss"
  shows "switchLanguage sid now1 now2 text target ss ! i =
           (if s_id (ss ! i) = sid
            then (ss ! i)\<lparr> s_languageCode := l_code target,
                           s_messages := filter (\<lambda>m. \<not> truthy (m_isWelcome m)) (s_messages (ss ! i)) @
                              [mk_message now1 text User,
                               mk_message (now2 + 1)
                                 (js ''Certainly! I will now respond in '' @ l_name target @ js ''.'') Bot] \<rparr>
            else ss ! i)"
  using assms
  by (simp add: switchLanguage_def Let_def updateSessionMessages_def applyUpdate_def)

lemma length_switchLanguage [simp]: "length (switchLanguage sid now1 now2 text target ss) = length ss"
  by (simp add: switchLanguage_def Let_def)

text \<open>
  C1 (as amended).  For every accepted submission (the text is not blank or a file is
  attached, and the active session exists), with suggestions on record for every language,
  the handler takes exactly the action that the priority list decides: language switch,
  then art-style selection (a pending image prompt and a text that is one of the art
  styles), then image edit (exactly one file, of an image type, and a non-blank text), then
  image request (the image pattern matches, the exclusion pattern does not, no file), then
  the trip-plan shortcut, then the default chat; the first rule that holds wins, and the
  handler raises nothing.  A language switch, an image request and a trip-plan reply are
  quiet: no backend call, nothing awaited, no new loading message.  An art-style selection
  and an image edit each add a loading placeholder and make one image backend call.  The
  default chat adds a loading placeholder and sends the chat message when a chat handle
  exists, and calls nothing when there is none.
\<close>

theorem router_priority:
  assumes "accepted pl st sid cur"
      and "tripPlanVariants (LANGUAGES c) = Inr variants"
      and "res = handleSendMessage c now1 now2 pl st"
  shows "r_action res = route c pl st cur \<and> r_raised res = None \<and>
         (case r_action res of
            LanguageSwitch target \<Rightarrow> quietAction st res
          | ImageRequest \<Rightarrow> quietAction st res
          | TripPlan \<Rightarrow> quietAction st res
          | StyleSelection prompt style \<Rightarrow>
              backendCalls (r_effects res) = [GenerateImage (js ''A '' @ toLowerCase style @ js '' of: '' @ prompt)] \<and>
              r_awaited res = Some (ImageGenerationCall (now1 + 1)) \<and>
              placeholderAdded st sid (now1 + 1) res
          | ImageEdit instruction file \<Rightarrow>
              backendCalls (r_effects res) = [EditImage file instruction] \<and>
              r_awaited res = Some (ImageEditCall (now2 + 1)) \<and>
              placeholderAdded st sid (now2 + 1) res
          | StandardMessage \<Rightarrow>
              (case chatSessionRef st of
                 None \<Rightarrow> backendCalls (r_effects res) = [] \<and> r_awaited res = None
               | Some chat \<Rightarrow>
                   backendCalls (r_effects res) =
                     [SendMessage chat
                        (TextPart (promptFor pl (userLocation st))
                         # map (\<lambda>f. InlineData (f_data f) (f_mimeType f))
                               (filter (\<lambda>f. startsWith (f_mimeType f) (js ''image/'')) (p_files pl)))] \<and>
                   r_awaited res = Some (StreamCall (now2 + 1)) \<and>
                   placeholderAdded st sid (now2 + 1) res)
          | Ignored \<Rightarrow> False
          | Crashed \<Rightarrow> False)"
proof -
  let ?text = "p_text pl" and ?files = "p_files pl"
  let ?st = "st\<lparr> isBotSpeaking := False \<rparr>"
  let ?style = "truthyStr (pendingImagePrompt st) \<and> ?text \<in> set (ART_STYLES c)"
  let ?edit = "length ?files = 1 \<and> startsWith (f_mimeType (?files ! 0)) (js ''image/'') \<and> trim ?text \<noteq> []"
  let ?req = "test True imageGenRegex (trim ?text) \<and> \<not> test True imageGenBlockRegex (trim ?text) \<and> ?files = []"
  let ?trip = "trim (toLowerCase ?text) \<in> set variants \<and> ?files = []"
  show ?thesis
  proof (cases "languageSwitchTarget c ?text cur")
    case (Some target)
    have r: "res = returned (LanguageSwitch target)
               (st\<lparr> isBotSpeaking := False,
                    sessions := switchLanguage sid now1 now2 ?text target (sessions st) \<rparr>) [] None"
      unfolding assms(3) by (rule send_language[OF assms(1) Some])
    show ?thesis
      using Some loading_switchLanguage[of sid now1 now2 ?text target "sessions st"]
      by (simp add: r route_def priorityRules_def Let_def quietAction_def backendCalls_def)
  next
    case nolang: None
    show ?thesis
    proof (cases ?style)
      case True
      then obtain pending where p: "pendingImagePrompt st = Some pending" "pending \<noteq> []"
        by (auto simp: truthyStr_def split: option.splits)
      have r: "res = returned (StyleSelection pending ?text)
             (st\<lparr> isBotSpeaking := False,
                  sessions := updateSessionMessages sid
                     (Updater (\<lambda>prev. prev @ [mk_message now2 ?text User,
                                               (mk_message (now1 + 1) [] Bot)\<lparr> m_isLoading := Some True \<rparr>]))
                     (sessions st),
                  pendingImagePrompt := None \<rparr>)
             [GenerateImage (js ''A '' @ toLowerCase ?text @ js '' of: '' @ pending)]
             (Some (ImageGenerationCall (now1 + 1)))"
        unfolding assms(3) using True by (intro send_style[OF assms(1) nolang p]) simp
      show ?thesis
        using True nolang p
        by (simp add: r route_def priorityRules_def Let_def backendCalls_def placeholderAdded_def
              updateSessionMessages_nth applyUpdate_def)
    next
      case nostyle: False
      show ?thesis
      proof (cases ?edit)
        case True
        have r: "res = returned (ImageEdit ?text (?files ! 0))
             ((dropPending ?st)
                \<lparr> sessions := updateSessionMessages sid
                     (Updater (appendTurn
                        ((mk_message now1 (js ''(Edit Prompt: '' @ ?text @ js '')'') User)
                           \<lparr> m_files := Some [?files ! 0] \<rparr>)
                        ((mk_message (now2 + 1) [] Bot)\<lparr> m_isLoading := Some True \<rparr>)))
                     (sessions st) \<rparr>)
             [EditImage (?files ! 0) ?text]
             (Some (ImageEditCall (now2 + 1)))"
          unfolding assms(3) using True by (intro send_edit[OF assms(1) nolang nostyle]) simp_all
        show ?thesis
          using True nolang nostyle
          by (simp add: r route_def priorityRules_def Let_def backendCalls_def placeholderAdded_def
                updateSessionMessages_nth applyUpdate_def)
      next
        case noedit: False
        show ?thesis
        proof (cases ?req)
          case True
          have r: "res = returned ImageRequest (requestImage c sid now1 now2 ?text (dropPending ?st)) [] None"
            unfolding assms(3) using True by (intro send_request[OF assms(1) nolang nostyle]) simp_all
          show ?thesis
            using True nolang nostyle noedit loading_requestImage[of c sid now1 now2 ?text "dropPending ?st"]
            by (simp add: r route_def priorityRules_def Let_def quietAction_def backendCalls_def)
        next
          case noreq: False
          show ?thesis
          proof (cases ?trip)
            case True
            have r: "res = returned TripPlan (tripPlanReply c sid now1 now2 ?text cur (dropPending ?st)) [] None"
              unfolding assms(3) using True noreq
              by (intro send_trip[OF assms(1) nolang nostyle _ _ assms(2)]) auto
            show ?thesis
              using True nolang nostyle noedit noreq assms(2)
                loading_tripPlanReply[of c sid now1 now2 ?text cur "dropPending ?st"]
              by (simp add: r route_def priorityRules_def Let_def quietAction_def backendCalls_def)
          next
            case notrip: False
            have r: "res = standardMessage sid now1 now2 pl cur (dropPending ?st)"
              unfolding assms(3) by (rule send_standard[OF assms(1) nolang nostyle noedit noreq assms(2) notrip])
            have rt: "route c pl st cur = StandardMessage"
              using nolang nostyle noedit noreq notrip assms(2)
              by (simp add: route_def priorityRules_def Let_def)
            show ?thesis
              unfolding r rt
              by (cases "chatSessionRef st")
                 (simp_all add: standardMessage_def Let_def backendCalls_def placeholderAdded_def
                    updateSessionMessages_nth applyUpdate_def)
          qed
        qed
      qed
    qed
  qed
qed

theorem router_priority_witness:
  "route sampleConstants (say ''draw a cat'') (sampleState None)
     \<lparr> s_id = js ''s1'', s_title = js ''hello'', s_messages = [mk_message 1 (js ''hello'') User],
       s_languageCode = js ''en-US'' \<rparr> = ImageRequest \<and>
   r_action (handleSendMessage sampleConstants 10 10 (say ''draw a cat'') (sampleState None)) = ImageRequest \<and>
   backendCalls (r_effects (handleSendMessage sampleConstants 10 10 (say ''draw a cat'') (sampleState None))) = [] \<and>
   r_awaited (handleSendMessage sampleConstants 10 10 (say ''draw a cat'') (sampleState None)) = None"
proof -
  let ?cur = "\<lparr> s_id = js ''s1'', s_title = js ''hello'', s_messages = [mk_message 1 (js ''hello'') User],
       s_languageCode = js ''en-US'' \<rparr>"
  have ne: "trim (js ''draw a cat'') \<noteq> []"
    using request_needs_text[OF draw_is_request] .
  have rt: "route sampleConstants (say ''draw a cat'') (sampleState None) ?cur = ImageRequest"
    using draw_is_request draw_is_not_blocked draw_is_no_switch[of ?cur]
    by (simp add: route_def priorityRules_def Let_def say_def sampleState_def truthyStr_def)
  note T = router_priority[OF sample_accepted[OF ne, of None] sample_variants refl, of 10 10]
  have a: "r_action (handleSendMessage sampleConstants 10 10 (say ''draw a cat'') (sampleState None)) = ImageRequest"
    using T rt by simp
  have "quietAction (sampleState None) (handleSendMessage sampleConstants 10 10 (say ''draw a cat'') (sampleState None))"
    using T unfolding a by simp
  then show ?thesis using a rt by (simp add: quietAction_def)
qed

text \<open>
  C1 as stated fails: an action other than the default chat can call the backend and create
  a loading placeholder.  With the pending prompt "draw a cat", the submission "Watercolor"
  is an art-style selection; it calls \<open>generateImage\<close> and leaves a loading placeholder as the
  last message of the session.
\<close>

theorem style_selection_calls_backend:
  "r_action (handleSendMessage sampleConstants 20 20 (say ''Watercolor'') (sampleState (Some (js ''draw a cat''))))
     = StyleSelection (js ''draw a cat'') (js ''Watercolor'') \<and>
   backendCalls (r_effects
       (handleSendMessage sampleConstants 20 20 (say ''Watercolor'') (sampleState (Some (js ''draw a cat'')))))
     = [GenerateImage (js ''A watercolor of: draw a cat'')] \<and>
   m_isLoading (last (s_messages (sessions (r_state
       (handleSendMessage sampleConstants 20 20 (say ''Watercolor'') (sampleState (Some (js ''draw a cat''))))) ! 0)))
     = Some True"
proof -
  have ne: "trim (js ''Watercolor'') \<noteq> []" by (simp add: rx_eval)
  have p: "pendingImagePrompt (sampleState (Some (js ''draw a cat''))) = Some (js ''draw a cat'')"
    "js ''draw a cat'' \<noteq> []"
    by (simp_all add: sampleState_def js_def)
  have sty: "p_text (say ''Watercolor'') \<in> set (ART_STYLES sampleConstants)"
    by (simp add: say_def sampleConstants_def)
  have nl: "languageSwitchTarget sampleConstants (p_text (say ''Watercolor''))
      \<lparr> s_id = js ''s1'', s_title = js ''hello'', s_messages = [mk_message 1 (js ''hello'') User],
        s_languageCode = js ''en-US'' \<rparr> = None"
    using watercolor_no_switch by (simp add: say_def)
  show ?thesis
    unfolding send_style[OF sample_accepted[OF ne] nl p sty]
    by (simp add: backendCalls_def say_def sampleState_def updateSessionMessages_def applyUpdate_def
          mk_message_def js_def toLowerCase_def lowerUnit_def)
qed

text \<open>
  C2 (as amended).  A submission in an existing active session whose trimmed text matches
  the language pattern, with the first match naming a supported language whose code differs
  from the session's: the action is the language switch to that language.  Every session
  with the active id loses its welcome messages, gets the user message appended, gets the
  language's code as its language code, and gets the confirmation appended, which is the
  fixed English sentence "Certainly! I will now respond in " followed by the language's
  name and a full stop.  The other sessions are unchanged.  No backend call is made and
  nothing is awaited.
\<close>

theorem language_switch:
  assumes "activeIn st sid cur"
      and "languageSwitchTarget c (p_text pl) cur = Some target"
      and "res = handleSendMessage c now1 now2 pl st"
  shows "r_action res = LanguageSwitch target \<and>
         target \<in> set (LANGUAGES c) \<and> l_code target \<noteq> s_languageCode cur \<and>
         length (sessions (r_state res)) = length (sessions st) \<and>
         (\<forall>i < length (sessions st).
            s_id (sessions st ! i) \<noteq> sid \<longrightarrow> sessions (r_state res) ! i = sessions st ! i) \<and>
         (\<forall>i < length (sessions st).
            s_id (sessions st ! i) = sid \<longrightarrow>
            sessions (r_state res) ! i =
              (sessions st ! i)
                \<lparr> s_languageCode := l_code target,
                  s_messages :=
                    filter (\<lambda>m. \<not> truthy (m_isWelcome m)) (s_messages (sessions st ! i)) @
                    [mk_message now1 (p_text pl) User,
                     mk_message (now2 + 1)
                       (js ''Certainly! I will now respond in '' @ l_name target @ js ''.'') Bot] \<rparr>) \<and>
         backendCalls (r_effects res) = [] \<and>
         r_awaited res = None"
proof -
  have acc: "accepted pl st sid cur"
    using assms(1) language_needs_text[OF assms(2)] by (simp add: accepted_def)
  have r: "res = returned (LanguageSwitch target)
             (st\<lparr> isBotSpeaking := False,
                  sessions := switchLanguage sid now1 now2 (p_text pl) target (sessions st) \<rparr>) [] None"
    unfolding assms(3) by (rule send_language[OF acc assms(2)])
  show ?thesis
    using languageSwitchTarget_Some[OF assms(2)]
    by (simp add: r switchLanguage_nth backendCalls_def)
qed

theorem language_switch_witness:
  "sessions (r_state (handleSendMessage sampleConstants 10 10 (say ''switch to Hindi'') (sampleState None)))
     = [\<lparr> s_id = js ''s1'', s_title = js ''hello'',
          s_messages = [mk_message 1 (js ''hello'') User,
                        mk_message 10 (js ''switch to Hindi'') User,
                        mk_message 11 (js ''Certainly! I will now respond in Hindi.'') Bot],
          s_languageCode = js ''hi-IN'' \<rparr>] \<and>
   backendCalls (r_effects (handleSendMessage sampleConstants 10 10 (say ''switch to Hindi'') (sampleState None)))
     = []"
proof -
  let ?cur = "\<lparr> s_id = js ''s1'', s_title = js ''hello'', s_messages = [mk_message 1 (js ''hello'') User],
       s_languageCode = js ''en-US'' \<rparr>"
  let ?res = "handleSendMessage sampleConstants 10 10 (say ''switch to Hindi'') (sampleState None)"
  have sw: "languageSwitchTarget sampleConstants (p_text (say ''switch to Hindi'')) ?cur =
     Some \<lparr> l_code = js ''hi-IN'', l_name = js ''Hindi'', l_nativeName = js ''Hindi'' \<rparr>"
    using hindi_switch[of ?cur] by (simp add: say_def)
  note T = language_switch[OF sample_active[of None] sw refl, of 10 10]
  have len: "length (sessions (r_state ?res)) = 1"
    using T by (simp add: sampleState_def)
  have first: "sessions (r_state ?res) ! 0 =
      \<lparr> s_id = js ''s1'', s_title = js ''hello'',
          s_messages = [mk_message 1 (js ''hello'') User,
                        mk_message 10 (js ''switch to Hindi'') User,
                        mk_message 11 (js ''Certainly! I will now respond in Hindi.'') Bot],
          s_languageCode = js ''hi-IN'' \<rparr>"
    using T by (simp add: sampleState_def say_def mk_message_def truthy_def js_def)
  have "sessions (r_state ?res) = [sessions (r_state ?res) ! 0]"
    using len by (cases "sessions (r_state ?res)") simp_all
  then show ?thesis using first T by simp
qed

text \<open>
  C2 as stated fails: the confirmation is not written in the new language.  After "switch
  to Hindi" in an English session the language code is hi-IN and the confirmation is the
  English sentence "Certainly! I will now respond in Hindi.", all of whose code units are
  ASCII.
\<close>

theorem confirmation_is_english:
  "m_text (last (s_messages (sessions (r_state
       (handleSendMessage sampleConstants 10 10 (say ''switch to Hindi'') (sampleState None))) ! 0)))
     = js ''Certainly! I will now respond in Hindi.'' \<and>
   s_languageCode (sessions (r_state
       (handleSendMessage sampleConstants 10 10 (say ''switch to Hindi'') (sampleState None))) ! 0)
     = js ''hi-IN'' \<and>
   \<not> list_ex (\<lambda>u. 127 < u)
       (m_text (last (s_messages (sessions (r_state
          (handleSendMessage sampleConstants 10 10 (say ''switch to Hindi'') (sampleState None))) ! 0))))"
proof -
  let ?cur = "\<lparr> s_id = js ''s1'', s_title = js ''hello'', s_messages = [mk_message 1 (js ''hello'') User],
       s_languageCode = js ''en-US'' \<rparr>"
  have sw: "languageSwitchTarget sampleConstants (p_text (say ''switch to Hindi'')) ?cur =
     Some \<lparr> l_code = js ''hi-IN'', l_name = js ''Hindi'', l_nativeName = js ''Hindi'' \<rparr>"
    using hindi_switch[of ?cur] by (simp add: say_def)
  have acc: "accepted (say ''switch to Hindi'') (sampleState None) (js ''s1'') ?cur"
    using sample_active[of None] language_needs_text[OF sw] by (simp add: accepted_def)
  show ?thesis
    unfolding send_language[OF acc sw]
    by (simp add: sampleState_def switchLanguage_nth mk_message_def js_def)
qed

text \<open>
  C5.  A submission in an existing active session with no file, whose trimmed text matches
  the image-request pattern and not the exclusion pattern, while neither the language rule
  nor the art-style rule fires (the image-edit rule needs a file): the action is the image
  request.  The pending image prompt becomes the submitted text; in every session with the
  active id the welcome messages are dropped and the user message and a bot message that
  carries the art styles as suggestions are appended; no backend is called and nothing is
  awaited.
\<close>

theorem image_request:
  assumes "activeIn st sid cur"
      and "p_files pl = []"
      and "test True imageGenRegex (trim (p_text pl))"
      and "\<not> test True imageGenBlockRegex (trim (p_text pl))"
      and "languageSwitchTarget c (p_text pl) cur = None"
      and "\<not> (truthyStr (pendingImagePrompt st) \<and> p_text pl \<in> set (ART_STYLES c))"
      and "res = handleSendMessage c now1 now2 pl st"
  shows "r_action res = ImageRequest \<and>
         pendingImagePrompt (r_state res) = Some (p_text pl) \<and>
         sessions (r_state res) =
           updateSessionMessages sid
             (Updater (\<lambda>prev. filter (\<lambda>m. \<not> truthy (m_isWelcome m)) prev @
                [mk_message now1 (p_text pl) User,
                 (mk_message (now2 + 1) (js ''Sounds creative! Which art style would you like?'') Bot)
                   \<lparr> m_suggestions :=
                       Some (map (\<lambda>style. \<lparr> sg_text = style, sg_icon = PaletteIcon, sg_prompt = None \<rparr>)
                                 (ART_STYLES c)) \<rparr>]))
             (sessions st) \<and>
         backendCalls (r_effects res) = [] \<and>
         r_awaited res = None"
proof -
  have acc: "accepted pl st sid cur"
    using assms(1) request_needs_text[OF assms(3)] by (simp add: accepted_def)
  show ?thesis
    unfolding assms(7) send_request[OF acc assms(5,6,2,3,4)]
    by (simp add: requestImage_def Let_def backendCalls_def)
qed

theorem image_request_witness:
  "pendingImagePrompt (r_state (handleSendMessage sampleConstants 10 10 (say ''draw a cat'') (sampleState None)))
     = Some (js ''draw a cat'') \<and>
   map m_text (s_messages (sessions (r_state
       (handleSendMessage sampleConstants 10 10 (say ''draw a cat'') (sampleState None))) ! 0))
     = [js ''hello'', js ''draw a cat'', js ''Sounds creative! Which art style would you like?''] \<and>
   m_suggestions (last (s_messages (sessions (r_state
       (handleSendMessage sampleConstants 10 10 (say ''draw a cat'') (sampleState None))) ! 0)))
     = Some [\<lparr> sg_text = js ''Watercolor'', sg_icon = PaletteIcon, sg_prompt = None \<rparr>] \<and>
   backendCalls (r_effects (handleSendMessage sampleConstants 10 10 (say ''draw a cat'') (sampleState None))) = []"
proof -
  let ?cur = "\<lparr> s_id = js ''s1'', s_title = js ''hello'', s_messages = [mk_message 1 (js ''hello'') User],
       s_languageCode = js ''en-US'' \<rparr>"
  have nostyle: "\<not> (truthyStr (pendingImagePrompt (sampleState None)) \<and>
                   p_text (say ''draw a cat'') \<in> set (ART_STYLES sampleConstants))"
    by (simp add: sampleState_def truthyStr_def)
  note T = image_request[OF sample_active[of None], of "say ''draw a cat''" sampleConstants _ 10 10,
      OF _ _ _ _ nostyle refl]
  have "p_files (say ''draw a cat'') = []" "p_text (say ''draw a cat'') = js ''draw a cat''"
    by (simp_all add: say_def)
  with T draw_is_request draw_is_not_blocked draw_is_no_switch[of ?cur]
  show ?thesis
    by (simp add: sampleState_def sampleConstants_def updateSessionMessages_def applyUpdate_def
          mk_message_def truthy_def)
qed

text \<open>
  C6 (as amended).  An accepted submission made while a non-empty image prompt is pending.
  If the language rule fires, the pending prompt stays as it is.  Otherwise, if the text is
  one of the art styles, the action is the style selection with the pending prompt and the
  text as style: \<open>generateImage\<close> is called with the prompt built from the two, the pending
  prompt is cleared, and it stays cleared whatever the call returns or raises.  Otherwise
  the pending prompt is dropped: afterwards there is none, unless the submission is itself
  an image request, in which case its text is the new pending prompt.
\<close>

theorem pending_prompt:
  assumes "accepted pl st sid cur"
      and "pendingImagePrompt st = Some pending" and "pending \<noteq> []"
      and "res = handleSendMessage c now1 now2 pl st"
  shows "(languageSwitchTarget c (p_text pl) cur \<noteq> None \<longrightarrow>
            pendingImagePrompt (r_state res) = Some pending) \<and>
         (languageSwitchTarget c (p_text pl) cur = None \<and> p_text pl \<in> set (ART_STYLES c) \<longrightarrow>
            r_action res = StyleSelection pending (p_text pl) \<and>
            backendCalls (r_effects res) =
              [GenerateImage (js ''A '' @ toLowerCase (p_text pl) @ js '' of: '' @ pending)] \<and>
            r_awaited res = Some (ImageGenerationCall (now1 + 1)) \<and>
            pendingImagePrompt (r_state res) = None \<and>
            (\<forall>outcome. pendingImagePrompt
                         (handleImageGeneration_settle sid (now1 + 1) outcome (r_state res)) = None)) \<and>
         (languageSwitchTarget c (p_text pl) cur = None \<and> p_text pl \<notin> set (ART_STYLES c) \<longrightarrow>
            pendingImagePrompt (r_state res) =
              (if r_action res = ImageRequest then Some (p_text pl) else None))"
proof -
  have a: "pendingImagePrompt (r_state res) = Some pending"
    if "languageSwitchTarget c (p_text pl) cur \<noteq> None"
  proof -
    from that obtain target where t: "languageSwitchTarget c (p_text pl) cur = Some target" by auto
    show ?thesis
      unfolding assms(4) send_language[OF assms(1) t] using assms(2) by simp
  qed
  have b: "r_action res = StyleSelection pending (p_text pl) \<and>
            backendCalls (r_effects res) =
              [GenerateImage (js ''A '' @ toLowerCase (p_text pl) @ js '' of: '' @ pending)] \<and>
            r_awaited res = Some (ImageGenerationCall (now1 + 1)) \<and>
            pendingImagePrompt (r_state res) = None \<and>
            (\<forall>outcome. pendingImagePrompt
                         (handleImageGeneration_settle sid (now1 + 1) outcome (r_state res)) = None)"
    if "languageSwitchTarget c (p_text pl) cur = None" "p_text pl \<in> set (ART_STYLES c)"
    unfolding assms(4) send_style[OF assms(1) that(1) assms(2,3) that(2)]
    by (simp add: backendCalls_def settle_keeps_pending)
  have c: "pendingImagePrompt (r_state res) =
              (if r_action res = ImageRequest then Some (p_text pl) else None)"
    if "languageSwitchTarget c (p_text pl) cur = None" "p_text pl \<notin> set (ART_STYLES c)"
    unfolding assms(4) by (rule pending_after_other[OF assms(1,2,3) that])
  show ?thesis using a b c by blast
qed

theorem pending_prompt_witness:
  "backendCalls (r_effects
       (handleSendMessage sampleConstants 20 20 (say ''Watercolor'') (sampleState (Some (js ''draw a cat'')))))
     = [GenerateImage (js ''A watercolor of: draw a cat'')] \<and>
   pendingImagePrompt (r_state
       (handleSendMessage sampleConstants 20 20 (say ''Watercolor'') (sampleState (Some (js ''draw a cat'')))))
     = None \<and>
   pendingImagePrompt (handleImageGeneration_settle (js ''s1'') 21 (Inl Thrown) (r_state
       (handleSendMessage sampleConstants 20 20 (say ''Watercolor'') (sampleState (Some (js ''draw a cat''))))))
     = None"
proof -
  have ne: "trim (js ''Watercolor'') \<noteq> []" by (simp add: rx_eval)
  have p: "pendingImagePrompt (sampleState (Some (js ''draw a cat''))) = Some (js ''draw a cat'')"
    "js ''draw a cat'' \<noteq> []"
    by (simp_all add: sampleState_def js_def)
  have sty: "p_text (say ''Watercolor'') \<in> set (ART_STYLES sampleConstants)"
    by (simp add: say_def sampleConstants_def)
  have nl: "languageSwitchTarget sampleConstants (p_text (say ''Watercolor''))
      \<lparr> s_id = js ''s1'', s_title = js ''hello'', s_messages = [mk_message 1 (js ''hello'') User],
        s_languageCode = js ''en-US'' \<rparr> = None"
    using watercolor_no_switch by (simp add: say_def)
  from pending_prompt[OF sample_accepted[OF ne] p refl, of sampleConstants 20 20] nl sty
  show ?thesis
    by (simp add: say_def js_def toLowerCase_def lowerUnit_def)
qed

text \<open>
  C6 as stated fails: a submission that takes the place of the style choice without
  matching a style does not always clear the pending prompt.  With "draw a cat" pending,
  "switch to Hindi" (not a style) leaves "draw a cat" pending; with "paint a dog" pending,
  the new request "draw a cat" (not a style) leaves "draw a cat" pending.
\<close>

theorem pending_prompt_not_cleared:
  "pendingImagePrompt (r_state
       (handleSendMessage sampleConstants 20 20 (say ''switch to Hindi'') (sampleState (Some (js ''draw a cat'')))))
     = Some (js ''draw a cat'') \<and>
   js ''switch to Hindi'' \<notin> set (ART_STYLES sampleConstants) \<and>
   pendingImagePrompt (r_state
       (handleSendMessage sampleConstants 20 20 (say ''draw a cat'') (sampleState (Some (js ''paint a dog'')))))
     = Some (js ''draw a cat'') \<and>
   js ''draw a cat'' \<notin> set (ART_STYLES sampleConstants)"
proof -
  let ?cur = "\<lparr> s_id = js ''s1'', s_title = js ''hello'', s_messages = [mk_message 1 (js ''hello'') User],
       s_languageCode = js ''en-US'' \<rparr>"
  have sw: "languageSwitchTarget sampleConstants (p_text (say ''switch to Hindi'')) ?cur =
     Some \<lparr> l_code = js ''hi-IN'', l_name = js ''Hindi'', l_nativeName = js ''Hindi'' \<rparr>"
    using hindi_switch[of ?cur] by (simp add: say_def)
  have acc1: "accepted (say ''switch to Hindi'') (sampleState (Some (js ''draw a cat''))) (js ''s1'') ?cur"
    using sample_active language_needs_text[OF sw] by (simp add: accepted_def)
  have one: "pendingImagePrompt (r_state
       (handleSendMessage sampleConstants 20 20 (say ''switch to Hindi'') (sampleState (Some (js ''draw a cat'')))))
     = Some (js ''draw a cat'')"
    unfolding send_language[OF acc1 sw] by (simp add: sampleState_def)
  have ne: "trim (js ''draw a cat'') \<noteq> []"
    using request_needs_text[OF draw_is_request] .
  have nl: "languageSwitchTarget sampleConstants (p_text (say ''draw a cat'')) ?cur = None"
    using draw_is_no_switch[of ?cur] by (simp add: say_def)
  have ns: "js ''draw a cat'' \<notin> set (ART_STYLES sampleConstants)"
    "js ''switch to Hindi'' \<notin> set (ART_STYLES sampleConstants)"
    by (simp_all add: sampleConstants_def js_def)
  have nostyle: "\<not> (truthyStr (pendingImagePrompt (sampleState (Some (js ''paint a dog'')))) \<and>
      p_text (say ''draw a cat'') \<in> set (ART_STYLES sampleConstants))"
    using ns by (simp add: say_def)
  have fl: "p_files (say ''draw a cat'') = []" and tx: "p_text (say ''draw a cat'') = js ''draw a cat''"
    by (simp_all add: say_def)
  have two: "pendingImagePrompt (r_state
       (handleSendMessage sampleConstants 20 20 (say ''draw a cat'') (sampleState (Some (js ''paint a dog'')))))
     = Some (js ''draw a cat'')"
    unfolding send_request[OF sample_accepted[OF ne] nl nostyle fl
        draw_is_request[folded tx] draw_is_not_blocked[folded tx]]
    by (simp add: say_def requestImage_def Let_def)
  show ?thesis using one two ns by simp
qed

end
